theory Spec2Isabelle
  imports Main "HOL-Library.Word" "HOL-Library.AList"
begin

section \<open>JavaScript primitives used by the handler pipeline\<close>

text \<open>
  A JavaScript string is a sequence of 16-bit code units. The texts whose code units enter
  the hash or the written modules, that is the source text of a function, the composite
  module text and the contents of files, are \<open>js_text\<close>. Handler names, identifiers,
  locators and file names, which the program only compares and concatenates, are \<open>string\<close>;
  \<open>jsText\<close> embeds such a string into the texts.
  JavaScript numbers that hold integers are \<open>int\<close>: every intermediate value of the hashing
  loop is below \<open>2 ^ 53\<close> in magnitude, so the double arithmetic is exact.
\<close>

type_synonym code_unit = "16 word"

type_synonym js_text = "code_unit list"

definition jsText :: "string \<Rightarrow> js_text" where
  "jsText str = map (\<lambda>c. of_nat (of_char c)) str"

text \<open>\<open>ToInt32\<close> of ECMAScript on an integer: the two's complement reading of the low 32 bits.\<close>

definition ToInt32 :: "int \<Rightarrow> int" where
  "ToInt32 x = (x + 2 ^ 31) mod 2 ^ 32 - 2 ^ 31"

text \<open>\<open>x << k\<close>: both operands go through \<open>ToInt32\<close>/\<open>ToUint32\<close>, the count is taken modulo 32.\<close>

definition shiftLeft :: "int \<Rightarrow> nat \<Rightarrow> int" where
  "shiftLeft x k = ToInt32 (ToInt32 x * 2 ^ (k mod 32))"

text \<open>\<open>x | 0\<close>.\<close>

definition bitOrZero :: "int \<Rightarrow> int" where
  "bitOrZero x = ToInt32 x"

text \<open>\<open>str.charCodeAt(i)\<close> for \<open>i = 0 .. str.length - 1\<close>.\<close>

definition charCodes :: "js_text \<Rightarrow> int list" where
  "charCodes str = map uint str"

text \<open>
  The loop of \<open>mod.ts\<close>, lines 170 to 174:
  \<^verbatim>\<open>hash = ((hash << 5) - hash) + str.charCodeAt(i); hash |= 0;\<close>
\<close>

fun hashLoop :: "int \<Rightarrow> int list \<Rightarrow> int" where
  "hashLoop hash [] = hash"
| "hashLoop hash (c # cs) = hashLoop (bitOrZero ((shiftLeft hash 5 - hash) + c)) cs"

text \<open>\<open>n.toString(16)\<close> for a non-negative integer \<open>n\<close>: lower-case digits, no prefix.\<close>

definition hexDigit :: "nat \<Rightarrow> char" where
  "hexDigit d = ''0123456789abcdef'' ! (d mod 16)"

fun toString16 :: "nat \<Rightarrow> string" where
  "toString16 n = (if n < 16 then [hexDigit n] else toString16 (n div 16) @ [hexDigit (n mod 16)])"

declare toString16.simps [simp del]

text \<open>\<open>Math.abs(hash).toString(16)\<close>.\<close>

definition absHex :: "int \<Rightarrow> string" where
  "absHex hash = toString16 (nat \<bar>hash\<bar>)"

text \<open>
  What a hexadecimal rendering is: the digits, most significant first, give the number back.
\<close>

definition hexDigitValue :: "char \<Rightarrow> nat" where
  "hexDigitValue c = length (takeWhile (\<lambda>d. d \<noteq> c) ''0123456789abcdef'')"

definition hexValue :: "string \<Rightarrow> nat" where
  "hexValue digits = foldl (\<lambda>n c. 16 * n + hexDigitValue c) 0 digits"

text \<open>
  The rolling hash as the specification words it: per character \<open>hash * 31 + charCode\<close>
  on a signed 32-bit integer that wraps around.
\<close>

definition rollingStep32 :: "32 word \<Rightarrow> int \<Rightarrow> 32 word" where
  "rollingStep32 h c = h * 31 + word_of_int c"

definition rollingHash32 :: "int list \<Rightarrow> int" where
  "rollingHash32 cs = sint (foldl rollingStep32 0 cs)"


section \<open>The server module \<open>mod.ts\<close>: data\<close>

text \<open>
  A function value: its object identity (the key of the \<open>handlers\<close> Map), the text
  that \<open>fn.toString()\<close> returns, and whether its \<open>name\<close> property may be redefined (it
  may not on a frozen function, where \<open>Object.defineProperty\<close> throws).
\<close>

record js_function =
  ident :: nat
  source :: js_text
  nameConfigurable :: bool

text \<open>What a caller can pass as the constructor's second argument at run time.\<close>

datatype js_value =
  JUndefined | JNull | JBoolean bool | JNumber int | JString string | JObject
  | JFunction js_function

datatype js_error = Error string | TypeError string

text \<open>
  \<open>ClientFunctionCacheV1\<close>: \<open>version\<close> is the constant 1, so the cache is its \<open>files\<close>
  record. Objects used as dictionaries and Maps are association lists: lookup is \<open>map_of\<close>,
  assignment and \<open>Map.set\<close> are \<open>AList.update\<close> (an existing key keeps its position,
  a new key goes to the end, which is the iteration order of a Map).
\<close>

record cache_entry =
  mtimeMs :: int
  handlerIds :: "(string \<times> string) list"

type_synonym cache_files = "(string \<times> cache_entry) list"

text \<open>
  A plain object inherits the members of \<open>Object.prototype\<close>: reading \<open>obj[key]\<close> yields
  the own property when there is one and the inherited member otherwise, and \<open>key in obj\<close>
  holds in both cases. These are the member names of ECMAScript with its Annex B; a host
  may drop \<open>__proto__\<close> (Deno does unless told otherwise), and that name then behaves as
  any name outside the list. All of them are functions, but \<open>__proto__\<close>, which reads as
  the prototype object itself; all are truthy. Where the program goes on to use such a member
  as if it were an identifier, every use but one converts it to a string, so the model
  keeps \<open>memberText\<close>, the text that the conversion gives in V8 (the one exception is the
  comparison of line 224 of \<open>mod.ts\<close>, which then compares the texts).
\<close>

definition objectPrototypeNames :: "string list" where
  "objectPrototypeNames =
     [''constructor'', ''__defineGetter__'', ''__defineSetter__'', ''hasOwnProperty'',
      ''__lookupGetter__'', ''__lookupSetter__'', ''isPrototypeOf'', ''propertyIsEnumerable'',
      ''toString'', ''valueOf'', ''__proto__'', ''toLocaleString'']"

definition memberText :: "string \<Rightarrow> string" where
  "memberText key =
     (if key = ''__proto__'' then ''[object Object]''
      else if key = ''constructor'' then ''function Object() { [native code] }''
      else ''function '' @ key @ ''() { [native code] }'')"

text \<open>\<open>obj[key]\<close> on a plain object whose own properties hold strings.\<close>

definition getProperty :: "(string \<times> string) list \<Rightarrow> string \<Rightarrow> string option" where
  "getProperty obj key =
     (case map_of obj key of
        Some own \<Rightarrow> Some own
      | None \<Rightarrow> if key \<in> set objectPrototypeNames then Some (memberText key) else None)"

text \<open>
  The \<open>fn\<close> property of a wrapper holds the function, unless the handler is itself
  named \<open>fn\<close> and line 191 has stored the invocation string there.
\<close>

datatype fn_slot = Fn js_function | FnText string

text \<open>
  \<open>ClientFunctionImpl\<close>: the four declared fields, and the own properties that
  \<open>(this as any)[fnName] = ...\<close> adds under any other name.
\<close>

record wrapper =
  fnName :: string
  fn :: fn_slot
  filename :: string
  sourceFileUrl :: "string option"
  ownProps :: "(string \<times> string) list"

text \<open>
  The world outside the module, as one call sees it:
  \<^item> \<open>cacheFile\<close>: the \<open>files\<close> of the document at \<open>CACHE_PATH\<close> when it can be read,
    parses, has \<open>version === 1\<close> and an object \<open>files\<close>; \<open>None\<close> otherwise;
  \<^item> \<open>statMtime u\<close>: \<open>Deno.statSync(new URL(u)).mtime.getTime()\<close>, \<open>None\<close> when the call
    throws or \<open>mtime\<close> is null;
  \<^item> \<open>writeOk\<close>: whether \<open>Deno.writeTextFileSync(CACHE_PATH, ...)\<close> succeeds.
\<close>

record env =
  cacheFile :: "cache_files option"
  statMtime :: "string \<Rightarrow> int option"
  writeOk :: bool

text \<open>
  The module-level variables of \<open>mod.ts\<close>. \<open>microtasks\<close> counts the flush callbacks that
  \<open>queueMicrotask\<close> holds; \<open>statCalls\<close> lists the locators for which line 85 was run,
  \<open>Deno.statSync(new URL(sourceFileUrl))\<close>; \<open>hashingLog\<close> lists the names printed by the
  \<open>console.log\<close> of lines 165 to 168, which runs exactly when a name is hashed.
\<close>

record module_state =
  cacheLoaded :: bool
  cacheDirty :: bool
  cacheFlushScheduled :: bool
  cache :: cache_files
  sourceFileMtimeMemo :: "(string \<times> int option) list"
  handlers :: "(nat \<times> wrapper) list"
  importsBySourceFileUrl :: "(string \<times> (string \<times> string) list) list"
  microtasks :: nat
  statCalls :: "string list"
  hashingLog :: "string list"

definition initial_state :: module_state where
  "initial_state = \<lparr>cacheLoaded = False, cacheDirty = False, cacheFlushScheduled = False,
     cache = [], sourceFileMtimeMemo = [], handlers = [], importsBySourceFileUrl = [],
     microtasks = 0, statCalls = [], hashingLog = []\<rparr>"

section \<open>The server module \<open>mod.ts\<close>: operations\<close>

definition loadCacheOnce :: "env \<Rightarrow> module_state \<Rightarrow> module_state" where
  "loadCacheOnce e s =
     (if cacheLoaded s then s
      else (case cacheFile e of
              Some parsed \<Rightarrow> s\<lparr>cacheLoaded := True, cache := parsed\<rparr>
            | None \<Rightarrow> s\<lparr>cacheLoaded := True\<rparr>))"

definition scheduleCacheFlush :: "module_state \<Rightarrow> module_state" where
  "scheduleCacheFlush s =
     (if \<not> cacheDirty s \<or> cacheFlushScheduled s then s
      else s\<lparr>cacheFlushScheduled := True, microtasks := Suc (microtasks s)\<rparr>)"

text \<open>The callback that \<open>scheduleCacheFlush\<close> queues, run later by the host.\<close>

definition cacheFlushMicrotask :: "env \<Rightarrow> module_state \<Rightarrow> module_state" where
  "cacheFlushMicrotask e s =
     (let s1 = s\<lparr>cacheFlushScheduled := False, microtasks := microtasks s - 1\<rparr>
      in if \<not> cacheDirty s1 then s1
         else if writeOk e then s1\<lparr>cacheDirty := False\<rparr>
         else s1)"

definition getSourceFileMtimeMs ::
  "env \<Rightarrow> string \<Rightarrow> module_state \<Rightarrow> int option \<times> module_state" where
  "getSourceFileMtimeMs e url s =
     (case map_of (sourceFileMtimeMemo s) url of
        Some memo \<Rightarrow> (memo, s)
      | None \<Rightarrow>
          (let v = statMtime e url
           in (v, s\<lparr>sourceFileMtimeMemo := AList.update url v (sourceFileMtimeMemo s),
                     statCalls := statCalls s @ [url]\<rparr>)))"

text \<open>\<open>sourceFileUrl ?? "__global__"\<close>.\<close>

definition registryKey :: "string option \<Rightarrow> string" where
  "registryKey url = (case url of None \<Rightarrow> ''__global__'' | Some u \<Rightarrow> u)"

text \<open>
  \<open>getImportRegistry\<close> returns the Map stored under the key, creating an empty one first
  when there is none. The model returns its entries; \<open>registrySet\<close> is the \<open>registry.set\<close>
  that the callers then do on that Map.
\<close>

definition getImportRegistry ::
  "string option \<Rightarrow> module_state \<Rightarrow> (string \<times> string) list \<times> module_state" where
  "getImportRegistry url s =
     (let key = registryKey url
      in case map_of (importsBySourceFileUrl s) key of
           Some existing \<Rightarrow> (existing, s)
         | None \<Rightarrow> ([], s\<lparr>importsBySourceFileUrl :=
                              AList.update key [] (importsBySourceFileUrl s)\<rparr>))"

definition registrySet :: "string \<Rightarrow> string \<Rightarrow> string \<Rightarrow> module_state \<Rightarrow> module_state" where
  "registrySet key name file s =
     (case map_of (importsBySourceFileUrl s) key of
        Some registry \<Rightarrow>
          s\<lparr>importsBySourceFileUrl :=
              AList.update key (AList.update name file registry) (importsBySourceFileUrl s)\<rparr>
      | None \<Rightarrow> s)"

text \<open>Truthiness of \<open>string | undefined\<close>: \<open>undefined\<close> and the empty string are falsy.\<close>

definition truthy :: "string option \<Rightarrow> bool" where
  "truthy v = (case v of None \<Rightarrow> False | Some str \<Rightarrow> str \<noteq> [])"

text \<open>Lines 152 to 154: a fresh entry for the file, the cache marked dirty, a flush scheduled.\<close>

definition resetFileEntry :: "string \<Rightarrow> int \<Rightarrow> module_state \<Rightarrow> module_state" where
  "resetFileEntry url t s =
     scheduleCacheFlush
       (s\<lparr>cache := AList.update url \<lparr>mtimeMs = t, handlerIds = []\<rparr> (cache s),
          cacheDirty := True\<rparr>)"

text \<open>
  Lines 145 to 159: the values of \<open>cachedFilename\<close> and \<open>sourceMtimeMs\<close> and the state
  after them. The entry read at line 157 is there: it either existed or line 152 has just
  stored it, so the \<open>None\<close> branch of that read is never taken. The read
  \<open>handlers[fnName]\<close> of line 157 is \<open>getProperty\<close>: for a name of \<open>Object.prototype\<close>
  that the file's handlers do not hold it yields the inherited member. The reads of
  \<open>cache.files[sourceFileUrl]\<close> are reads of own properties: they happen only for a locator
  whose time was read, which is an absolute URL and no member name.
\<close>

definition lookupCachedFilename ::
  "env \<Rightarrow> string \<Rightarrow> string option \<Rightarrow> module_state
     \<Rightarrow> string option \<times> int option \<times> module_state" where
  "lookupCachedFilename e name url s =
     (if truthy url then
        (let u = the url; (sourceMtimeMs, s1) = getSourceFileMtimeMs e u s
         in case sourceMtimeMs of
              None \<Rightarrow> (None, None, s1)
            | Some t \<Rightarrow>
                (let s2 = (case map_of (cache s1) u of
                             None \<Rightarrow> resetFileEntry u t s1
                           | Some existingEntry \<Rightarrow>
                               if mtimeMs existingEntry \<noteq> t then resetFileEntry u t s1 else s1)
                 in (case map_of (cache s2) u of
                       Some entry \<Rightarrow> getProperty (handlerIds entry) name
                     | None \<Rightarrow> None,
                     Some t, s2)))
      else (None, None, s))"

text \<open>Lines 169 to 175.\<close>

definition hashedFilename :: "string \<Rightarrow> js_function \<Rightarrow> string" where
  "hashedFilename name f = name @ ''_'' @ absHex (hashLoop 0 (charCodes (source f)))"

text \<open>Lines 177 to 182.\<close>

definition storeCachedFilename ::
  "string \<Rightarrow> int \<Rightarrow> string \<Rightarrow> string \<Rightarrow> module_state \<Rightarrow> module_state" where
  "storeCachedFilename url t name resolved s =
     (let entry = (case map_of (cache s) url of
                     Some existing \<Rightarrow> existing
                   | None \<Rightarrow> \<lparr>mtimeMs = t, handlerIds = []\<rparr>)
      in scheduleCacheFlush
           (s\<lparr>cache := AList.update url
                          (entry\<lparr>handlerIds := AList.update name resolved (handlerIds entry)\<rparr>)
                          (cache s),
              cacheDirty := True\<rparr>))"

text \<open>Lines 143 to 183: \<open>resolvedFilename\<close> and the state after it.\<close>

definition resolveFilename ::
  "env \<Rightarrow> string \<Rightarrow> js_function \<Rightarrow> string option \<Rightarrow> module_state
     \<Rightarrow> string \<times> module_state" where
  "resolveFilename e name f url s =
     (let (cachedFilename, sourceMtimeMs, s1) =
            lookupCachedFilename e name url (loadCacheOnce e s)
      in if truthy cachedFilename then (the cachedFilename, s1)
         else
           (let s2 = s1\<lparr>hashingLog := hashingLog s1 @ [name]\<rparr>;
                resolved = hashedFilename name f
            in (resolved,
                if truthy url \<and> sourceMtimeMs \<noteq> None
                then storeCachedFilename (the url) (the sourceMtimeMs) name resolved s2
                else s2)))"

text \<open>
  Property assignment \<open>this[key] = text\<close> on a wrapper: a declared field when the key
  names one, an own property otherwise; and the matching read.
\<close>

definition setProperty :: "string \<Rightarrow> string \<Rightarrow> wrapper \<Rightarrow> wrapper" where
  "setProperty key text w =
     (if key = ''fnName'' then w\<lparr>fnName := text\<rparr>
      else if key = ''fn'' then w\<lparr>fn := FnText text\<rparr>
      else if key = ''filename'' then w\<lparr>filename := text\<rparr>
      else if key = ''sourceFileUrl'' then w\<lparr>sourceFileUrl := Some text\<rparr>
      else w\<lparr>ownProps := AList.update key text (ownProps w)\<rparr>)"

definition fnToString :: "fn_slot \<Rightarrow> js_text" where
  "fnToString slot = (case slot of Fn f \<Rightarrow> source f | FnText text \<Rightarrow> jsText text)"

text \<open>
  The string read back from \<open>wrapper[key]\<close>; \<open>None\<close> when the property is absent or does
  not hold a string.
\<close>

definition getStringProperty :: "wrapper \<Rightarrow> string \<Rightarrow> string option" where
  "getStringProperty w key =
     (if key = ''fnName'' then Some (fnName w)
      else if key = ''fn'' then (case fn w of Fn f \<Rightarrow> None | FnText text \<Rightarrow> Some text)
      else if key = ''filename'' then Some (filename w)
      else if key = ''sourceFileUrl'' then sourceFileUrl w
      else map_of (ownProps w) key)"

text \<open>\<open>typeof v === "function"\<close>.\<close>

definition typeofFunction :: "js_value \<Rightarrow> bool" where
  "typeofFunction v = (case v of JFunction f \<Rightarrow> True | _ \<Rightarrow> False)"

text \<open>
  The constructor. A throw leaves the state as it is at that point, so the state is
  returned beside the result. \<open>Object.defineProperty(fn, "name", ...)\<close> of line 185 throws
  a \<open>TypeError\<close> when the function's \<open>name\<close> cannot be redefined, after the identifier was
  resolved and before the wrapper is filled in; otherwise it changes only the name that
  \<open>buildCode\<close> prints in its log line, which is left out.
\<close>

definition ClientFunctionImpl ::
  "env \<Rightarrow> string \<Rightarrow> js_value \<Rightarrow> string option \<Rightarrow> module_state
     \<Rightarrow> (js_error + wrapper) \<times> module_state" where
  "ClientFunctionImpl e name fnArg url s =
     (case fnArg of
        JFunction f \<Rightarrow>
          (let (resolvedFilename, s1) = resolveFilename e name f url s
           in if \<not> nameConfigurable f
              then (Inl (TypeError ''Cannot redefine property: name''), s1)
              else
                (let this0 = \<lparr>fnName = name, fn = Fn f, filename = resolvedFilename,
                              sourceFileUrl = url, ownProps = []\<rparr>;
                     this1 = setProperty name
                               (''handlers.'' @ filename this0 @ ''(this, event)'') this0;
                     s2 = s1\<lparr>handlers := AList.update (ident f) this1 (handlers s1)\<rparr>;
                     (registry, s3) = getImportRegistry url s2
                 in (Inr this1, registrySet (registryKey url) name (filename this1) s3)))
      | _ \<Rightarrow> (Inl (Error ''ClientFunction requires a function''), s))"

text \<open>The method \<open>register\<close>.\<close>

definition register :: "wrapper \<Rightarrow> string \<Rightarrow> module_state \<Rightarrow> module_state" where
  "register w targetSourceFileUrl s =
     (let (registry, s1) = getImportRegistry (Some targetSourceFileUrl) s
      in registrySet targetSourceFileUrl (fnName w) (filename w) s1)"


text \<open>
  The options object handed to \<open>esbuild.transform\<close>. \<open>minify\<close> is \<open>None\<close> when the
  caller passes no such option; the transpiler then does not minify.
\<close>

record transform_options =
  loader :: string
  format :: string
  target :: "string list"
  sourcemap :: bool
  minify :: "bool option"

text \<open>The transpiler is outside the repository: a fallible function of the text and the options.\<close>

type_synonym transpiler = "js_text \<Rightarrow> transform_options \<Rightarrow> js_error + js_text"

definition newline :: string where
  "newline = [CHR 0x0A]"

text \<open>\<open>lines.join(sep)\<close>.\<close>

fun join :: "string \<Rightarrow> string list \<Rightarrow> string" where
  "join sep [] = []"
| "join sep [x] = x"
| "join sep (x # y # ys) = x @ sep @ join sep (y # ys)"

definition importLine :: "string \<Rightarrow> string \<Rightarrow> string" where
  \<open>importLine name file = ''import { default as '' @ name @ '' } from "./'' @ file @ ''.js";''\<close>

text \<open>The loop of lines 222 to 228 over \<open>registry.entries()\<close>, with \<open>importLines\<close> as accumulator.\<close>

fun importLinesLoop ::
  "string \<Rightarrow> string \<Rightarrow> (string \<times> string) list \<Rightarrow> string list \<Rightarrow> string list" where
  "importLinesLoop thisFnName thisFilename [] importLines = importLines"
| "importLinesLoop thisFnName thisFilename ((name, file) # entries) importLines =
     (if name = thisFnName \<or> file = thisFilename
      then importLinesLoop thisFnName thisFilename entries importLines
      else importLinesLoop thisFnName thisFilename entries (importLines @ [importLine name file]))"

text \<open>Lines 220 to 234: the composite text \<open>functionCode\<close>.\<close>

definition functionCode :: "wrapper \<Rightarrow> (string \<times> string) list \<Rightarrow> js_text" where
  "functionCode w registry =
     jsText (join newline (importLinesLoop (fnName w) (filename w) registry []))
       @ jsText newline @ jsText ''export default '' @ fnToString (fn w)"

text \<open>Lines 236 to 240: the options \<open>buildCode\<close> passes.\<close>

definition buildCodeOptions :: transform_options where
  "buildCodeOptions =
     \<lparr>loader = ''ts'', format = ''esm'', target = [''esnext''], sourcemap = False,
      minify = None\<rparr>"

text \<open>
  The method \<open>buildCode()\<close>. It declares no parameter. The transpiler fails by rejecting
  the promise it returns; the rejection is caught and replaced by \<open>{ code: functionCode }\<close>.
\<close>

definition buildCode :: "transpiler \<Rightarrow> wrapper \<Rightarrow> module_state \<Rightarrow> js_text \<times> module_state" where
  "buildCode transform w s =
     (let (registry, s1) = getImportRegistry (sourceFileUrl w) s;
          code = functionCode w registry
      in (case transform code buildCodeOptions of
            Inr transformed \<Rightarrow> transformed
          | Inl err \<Rightarrow> code,
          s1))"

text \<open>
  What a process can do with the module between two moments: \<open>evolves s s'\<close> when \<open>s'\<close>
  comes from \<open>s\<close> by constructor calls, \<open>register\<close> calls, runs of the flush callback
  and \<open>buildCode\<close> calls, in any order and in any world.
\<close>

inductive evolves :: "module_state \<Rightarrow> module_state \<Rightarrow> bool" where
  no_step: "evolves s s"
| constructor_step: "evolves s s' \<Longrightarrow> evolves s (snd (ClientFunctionImpl e name fnArg url s'))"
| register_step: "evolves s s' \<Longrightarrow> evolves s (register w targetUrl s')"
| flush_step:
    "evolves s s' \<Longrightarrow> 0 < microtasks s' \<Longrightarrow> evolves s (cacheFlushMicrotask e s')"
| buildCode_step: "evolves s s' \<Longrightarrow> evolves s (snd (buildCode transform w s'))"


definition memoCoherent :: "module_state \<Rightarrow> bool" where
  "memoCoherent s =
     (distinct (statCalls s)
      \<and> (\<forall>u. u \<in> set (statCalls s) \<longleftrightarrow> map_of (sourceFileMtimeMemo s) u \<noteq> None)
      \<and> (statCalls s \<noteq> [] \<longrightarrow> cacheLoaded s)
      \<and> (\<forall>u t. map_of (sourceFileMtimeMemo s) u = Some (Some t) \<longrightarrow>
             (\<exists>entry. map_of (cache s) u = Some entry \<and> mtimeMs entry = t)))"

section \<open>The build module \<open>build.ts\<close>\<close>

text \<open>
  The output directory \<open>publicDir\<close>: its entries by name. A regular file carries its text.
  Handler ids and file names are single path segments.
\<close>

datatype dir_entry = RegularFile js_text | Directory

type_synonym directory = "(string \<times> dir_entry) list"

definition isFile :: "dir_entry \<Rightarrow> bool" where
  "isFile entry = (case entry of RegularFile text \<Rightarrow> True | Directory \<Rightarrow> False)"

text \<open>\<open>Deno.stat(path).then(() => true).catch(() => false)\<close>.\<close>

definition fileExists :: "directory \<Rightarrow> string \<Rightarrow> bool" where
  "fileExists dir name = (map_of dir name \<noteq> None)"

text \<open>\<open>Deno.writeTextFile\<close>: creates or replaces a regular file, fails on a directory.\<close>

definition writeTextFile :: "string \<Rightarrow> js_text \<Rightarrow> directory \<Rightarrow> js_error + directory" where
  "writeTextFile name text dir =
     (case map_of dir name of
        Some Directory \<Rightarrow> Inl (Error ''Is a directory'')
      | _ \<Rightarrow> Inr (AList.update name (RegularFile text) dir))"

text \<open>
  Lines 165 to 171 and 300 to 306: the options of the two other transforms of a build, for
  the bootstrap module and for a client file.
\<close>

definition bootstrapOptions :: "bool \<Rightarrow> transform_options" where
  "bootstrapOptions minifyFlag =
     \<lparr>loader = ''ts'', format = ''esm'', target = [''esnext''], sourcemap = False,
      minify = Some minifyFlag\<rparr>"

definition clientFileOptions :: "string \<Rightarrow> bool \<Rightarrow> transform_options" where
  "clientFileOptions fileLoader minifyFlag =
     \<lparr>loader = fileLoader, format = ''esm'', target = [''esnext''], sourcemap = False,
      minify = Some minifyFlag\<rparr>"

text \<open>
  The call \<open>handler.buildCode(minify)\<close> of line 193. The method takes no parameter, so the
  argument is dropped. When the handler is itself named \<open>buildCode\<close>, line 191 of \<open>mod.ts\<close>
  has stored the invocation string as an own property of that name, which hides the method:
  the call throws a \<open>TypeError\<close>.
\<close>

definition callBuildCode ::
  "transpiler \<Rightarrow> bool \<Rightarrow> wrapper \<Rightarrow> module_state \<Rightarrow> (js_error + js_text) \<times> module_state" where
  "callBuildCode transform minifyFlag handler s =
     (if map_of (ownProps handler) ''buildCode'' \<noteq> None
      then (Inl (TypeError ''handler.buildCode is not a function''), s)
      else (let (code, s1) = buildCode transform handler s in (Inr code, s1)))"

text \<open>Lines 179 to 201, the task of one registered handler.\<close>

definition buildHandlerFile ::
  "transpiler \<Rightarrow> bool \<Rightarrow> wrapper \<Rightarrow> directory \<times> module_state
     \<Rightarrow> (js_error + string) \<times> directory \<times> module_state" where
  "buildHandlerFile transform minifyFlag handler ds =
     (let (publicDir, s) = ds; file = filename handler
      in if fileExists publicDir (file @ ''.js'') then (Inr file, publicDir, s)
         else
           (let (built, s1) = callBuildCode transform minifyFlag handler s
            in case built of
                 Inl err \<Rightarrow> (Inl err, publicDir, s1)
               | Inr code \<Rightarrow>
                   (case writeTextFile (file @ ''.js'') code publicDir of
                      Inr written \<Rightarrow> (Inr file, written, s1)
                    | Inl err \<Rightarrow> (Inl err, publicDir, s1))))"

text \<open>\<open>name.endsWith(suffix)\<close> and \<open>name.split(".")[0]\<close>.\<close>

definition endsWith :: "string \<Rightarrow> string \<Rightarrow> bool" where
  "endsWith name suffix =
     (length suffix \<le> length name \<and> drop (length name - length suffix) name = suffix)"

definition baseName :: "string \<Rightarrow> string" where
  "baseName name = takeWhile (\<lambda>c. c \<noteq> CHR ''.'') name"

text \<open>
  Lines 213 to 221: the loop over the entries that \<open>Deno.readDir\<close> yields. \<open>removeOk\<close>
  tells whether \<open>Deno.remove\<close> succeeds on a name; a failure ends the build with the
  error.
\<close>

fun cleanupLoop ::
  "(string \<Rightarrow> bool) \<Rightarrow> string list \<Rightarrow> (string \<times> dir_entry) list \<Rightarrow> directory
     \<Rightarrow> js_error option \<times> directory" where
  "cleanupLoop removeOk files [] dir = (None, dir)"
| "cleanupLoop removeOk files ((name, entry) # entries) dir =
     (if isFile entry \<and> endsWith name ''.js'' then
        (if baseName name \<notin> set files then
           (if removeOk name then cleanupLoop removeOk files entries (AList.delete name dir)
            else (Some (Error ''remove failed''), dir))
         else cleanupLoop removeOk files entries dir)
      else cleanupLoop removeOk files entries dir)"

text \<open>Lines 212 to 222.\<close>

definition cleanupStep ::
  "bool \<Rightarrow> (string \<Rightarrow> bool) \<Rightarrow> string list \<Rightarrow> directory \<Rightarrow> js_error option \<times> directory" where
  "cleanupStep cleanup removeOk files dir =
     (if cleanup then cleanupLoop removeOk files dir dir else (None, dir))"

text \<open>The entries the loop removes: regular files named \<open>*.js\<close> whose base name is not listed.\<close>

definition stale :: "string list \<Rightarrow> string \<times> dir_entry \<Rightarrow> bool" where
  "stale files item =
     (isFile (snd item) \<and> endsWith (fst item) ''.js'' \<and> baseName (fst item) \<notin> set files)"

section \<open>The browser module \<open>client.ts\<close>\<close>

datatype property_key = StringKey string | SymbolKey

text \<open>
  One call of \<open>import(...)\<close>: its specifier, the handler name it was made for, and what has
  become of its promise. A fulfilled import carries the module's default export, a function
  known by its identity.
\<close>

datatype import_status = Pending | Fulfilled nat | Rejected

record import_call =
  specifier :: string
  handlerName :: string
  status :: import_status

text \<open>
  The state behind one proxy: the \<open>basePath\<close> its trap closes over, the own properties of
  the \<open>target\<close> object, and the calls of \<open>import(...)\<close> made so far in the order of the
  calls; the position of a call in the list identifies its promise. The host's part is its
  module map, which has one entry for every specifier ever imported, and the loads it has
  started: an import of a specifier that has an entry starts no load, and its promise
  settles as that entry does. All the specifiers of one proxy are relative to the one
  module, so equal specifiers resolve to the same module.
\<close>

record proxy_state =
  basePath :: string
  proxyTarget :: "(string \<times> nat) list"
  importCalls :: "import_call list"
  moduleMap :: "(string \<times> import_status) list"
  loadsStarted :: "string list"

definition createHandlerProxy :: "string \<Rightarrow> proxy_state" where
  "createHandlerProxy path =
     \<lparr>basePath = path, proxyTarget = [], importCalls = [], moduleMap = [], loadsStarted = []\<rparr>"

text \<open>
  \<open>prop in target\<close>: the target is a plain object, so the test holds for its own properties
  and for the members it inherits from \<open>Object.prototype\<close>.
\<close>

definition propInTarget :: "proxy_state \<Rightarrow> string \<Rightarrow> bool" where
  "propInTarget ps prop =
     (map_of (proxyTarget ps) prop \<noteq> None \<or> prop \<in> set objectPrototypeNames)"

text \<open>The host's part of a call of \<open>import(spec)\<close>.\<close>

definition startImport :: "string \<Rightarrow> string \<Rightarrow> proxy_state \<Rightarrow> proxy_state" where
  "startImport spec name ps =
     (let ps1 = ps\<lparr>importCalls := importCalls ps @
                     [\<lparr>specifier = spec, handlerName = name, status = Pending\<rparr>]\<rparr>
      in case map_of (moduleMap ps) spec of
           Some known \<Rightarrow> ps1
         | None \<Rightarrow> ps1\<lparr>moduleMap := AList.update spec Pending (moduleMap ps1),
                       loadsStarted := loadsStarted ps1 @ [spec]\<rparr>)"

text \<open>
  The two closures the \<open>get\<close> trap returns: the one of lines 35 to 38, which reads the
  target when called, and the one of lines 50 to 54, which awaits the promise of the
  \<open>import(...)\<close> called by this very access.
\<close>

datatype handler_callable = CallTarget string | AwaitImport nat

text \<open>The \<open>get\<close> trap, lines 30 to 55.\<close>

definition getTrap ::
  "property_key \<Rightarrow> proxy_state \<Rightarrow> handler_callable option \<times> proxy_state" where
  "getTrap prop ps =
     (case prop of
        SymbolKey \<Rightarrow> (None, ps)
      | StringKey callFunctionName \<Rightarrow>
          if propInTarget ps callFunctionName
          then (Some (CallTarget callFunctionName), ps)
          else (Some (AwaitImport (length (importCalls ps))),
                startImport (basePath ps @ ''/'' @ callFunctionName @ ''.js'')
                  callFunctionName ps))"

text \<open>The host finishes the load of a specifier, with a module or with a failure.\<close>

definition finishLoad :: "string \<Rightarrow> import_status \<Rightarrow> proxy_state \<Rightarrow> proxy_state" where
  "finishLoad spec outcome ps =
     (if map_of (moduleMap ps) spec = Some Pending
      then ps\<lparr>moduleMap := AList.update spec outcome (moduleMap ps)\<rparr>
      else ps)"

text \<open>
  The promise of the call with index \<open>i\<close> settles, as the module map says. On fulfilment
  the \<open>then\<close> callback of lines 42 to 46 stores the default export in the target.
\<close>

definition settleImport :: "nat \<Rightarrow> proxy_state \<Rightarrow> proxy_state" where
  "settleImport i ps =
     (if i < length (importCalls ps) \<and> status (importCalls ps ! i) = Pending then
        (let call = importCalls ps ! i
         in case map_of (moduleMap ps) (specifier call) of
              Some (Fulfilled scriptContent) \<Rightarrow>
                ps\<lparr>importCalls := (importCalls ps)[i := call\<lparr>status := Fulfilled scriptContent\<rparr>],
                   proxyTarget := AList.update (handlerName call) scriptContent (proxyTarget ps)\<rparr>
            | Some Rejected \<Rightarrow>
                ps\<lparr>importCalls := (importCalls ps)[i := call\<lparr>status := Rejected\<rparr>]\<rparr>
            | _ \<Rightarrow> ps)
      else ps)"

text \<open>
  What an invocation of a returned closure comes to: the call
  \<open>f.call(thisValue, ...rest)\<close> of a loaded function, the same call of a member of
  \<open>Object.prototype\<close>, a wait for an import that has not settled, the rejection of that
  import, or a \<open>TypeError\<close> when what \<open>Reflect.get\<close> returns has no \<open>call\<close> method (the
  inherited \<open>__proto__\<close> reads as the prototype object).
\<close>

datatype invocation =
    Calls nat js_value "js_value list"
  | CallsMember string js_value "js_value list"
  | Awaits nat
  | Rejects nat
  | ThrowsTypeError

text \<open>\<open>const [thisValue, ...rest] = args\<close>.\<close>

definition thisValue :: "js_value list \<Rightarrow> js_value" where
  "thisValue args = (case args of [] \<Rightarrow> JUndefined | a # rest \<Rightarrow> a)"

definition restArgs :: "js_value list \<Rightarrow> js_value list" where
  "restArgs args = (case args of [] \<Rightarrow> [] | a # rest \<Rightarrow> rest)"

definition invoke :: "handler_callable \<Rightarrow> js_value list \<Rightarrow> proxy_state \<Rightarrow> invocation" where
  "invoke callable args ps =
     (case callable of
        CallTarget prop \<Rightarrow>
          (case map_of (proxyTarget ps) prop of
             Some f \<Rightarrow> Calls f (thisValue args) (restArgs args)
           | None \<Rightarrow>
               if prop \<in> set objectPrototypeNames \<and> prop \<noteq> ''__proto__''
               then CallsMember prop (thisValue args) (restArgs args)
               else ThrowsTypeError)
      | AwaitImport i \<Rightarrow>
          (if i < length (importCalls ps) then
             (case status (importCalls ps ! i) of
                Pending \<Rightarrow> Awaits i
              | Fulfilled scriptFunction \<Rightarrow> Calls scriptFunction (thisValue args) (restArgs args)
              | Rejected \<Rightarrow> Rejects i)
           else Awaits i))"

text \<open>
  The proxy states that accesses of the proxy and the host's events lead to, and two
  predicates for the proofs. \<open>proxyInvariant\<close>: the host has started no load twice, every
  settled call of \<open>import(...)\<close> has the outcome that the module map records for its
  specifier, and the module map knows exactly the specifiers whose load was started.
  \<open>sameLoad\<close>: two calls of \<open>import(...)\<close> with the same specifier that have both settled
  have settled alike.
\<close>

inductive proxyReaches :: "proxy_state \<Rightarrow> proxy_state \<Rightarrow> bool" where
  proxy_created: "proxyReaches ps ps"
| proxy_access: "proxyReaches ps ps1 \<Longrightarrow> proxyReaches ps (snd (getTrap prop ps1))"
| proxy_loaded: "proxyReaches ps ps1 \<Longrightarrow> proxyReaches ps (finishLoad spec outcome ps1)"
| proxy_settled: "proxyReaches ps ps1 \<Longrightarrow> proxyReaches ps (settleImport i ps1)"

definition proxyInvariant :: "proxy_state \<Rightarrow> bool" where
  "proxyInvariant ps =
     (distinct (loadsStarted ps)
      \<and> (\<forall>c \<in> set (importCalls ps).
            status c = Pending \<or> map_of (moduleMap ps) (specifier c) = Some (status c))
      \<and> (\<forall>spec. map_of (moduleMap ps) spec \<noteq> None \<longleftrightarrow> spec \<in> set (loadsStarted ps)))"

definition sameLoad :: "proxy_state \<Rightarrow> bool" where
  "sameLoad ps =
     (\<forall>i < length (importCalls ps). \<forall>j < length (importCalls ps).
        specifier (importCalls ps ! i) = specifier (importCalls ps ! j) \<longrightarrow>
        status (importCalls ps ! i) \<noteq> Pending \<longrightarrow>
        status (importCalls ps ! j) \<noteq> Pending \<longrightarrow>
        status (importCalls ps ! i) = status (importCalls ps ! j))"

section \<open>Example inputs\<close>

text \<open>
  The handler of the specification's scenario, a second function, a locator, and a world
  with no cache file in which every locator has the modification time \<open>m\<close> (\<open>None\<close>:
  the time cannot be read).
\<close>

definition pingFn :: js_function where
  "pingFn = \<lparr>ident = 0, source = jsText ''function(){return 1}'', nameConfigurable = True\<rparr>"

definition pongFn :: js_function where
  "pongFn = \<lparr>ident = 1, source = jsText ''function(){return 2}'', nameConfigurable = True\<rparr>"

text \<open>A function whose source text ends in the Greek letter lambda, the code unit 955.\<close>

definition lambdaFn :: js_function where
  "lambdaFn = \<lparr>ident = 2, source = jsText ''()=>'' @ [955], nameConfigurable = True\<rparr>"

definition fileA :: string where
  "fileA = ''file:///app/a.ts''"

definition coldEnv :: "int option \<Rightarrow> env" where
  "coldEnv m = \<lparr>cacheFile = None, statMtime = (\<lambda>u. m), writeOk = True\<rparr>"

text \<open>
  A world with a cache file written by an earlier process, when \<open>fileA\<close> had the
  modification time 50; the file now has the time 100.
\<close>

definition warmEnv :: env where
  "warmEnv =
     \<lparr>cacheFile = Some [(fileA, \<lparr>mtimeMs = 50,
                                  handlerIds = [(''ping'', ''ping_1a2b''), (''pong'', ''pong_3c4d'')]\<rparr>)],
      statMtime = (\<lambda>u. Some 100), writeOk = True\<rparr>"

text \<open>The wrapper and the state after \<open>new ClientFunction("ping", pingFn, fileA)\<close> in a
  fresh process, the file having the time 100.\<close>

definition pingWrapper :: wrapper where
  "pingWrapper =
     \<lparr>fnName = ''ping'', fn = Fn pingFn, filename = ''ping_5d48cb26'',
      sourceFileUrl = Some fileA,
      ownProps = [(''ping'', ''handlers.ping_5d48cb26(this, event)'')]\<rparr>"

definition afterFirstPing :: module_state where
  "afterFirstPing =
     snd (ClientFunctionImpl (coldEnv (Some 100)) ''ping'' (JFunction pingFn) (Some fileA)
            initial_state)"



text \<open>A state whose registry for \<open>fileA\<close> lists two handlers, and two transpilers: one that
  marks its output with the minify option it was given, one that always throws.\<close>

definition twoHandlers :: module_state where
  "twoHandlers = initial_state\<lparr>importsBySourceFileUrl :=
      [(fileA, [(''pong'', ''pong_5d48cb07''), (''ping'', ''ping_5d48cb26'')])]\<rparr>"

definition markingTranspiler :: transpiler where
  "markingTranspiler code options =
     Inr (jsText (if minify options = Some True then ''/*minified*/'' else ''/*plain*/'') @ code)"

definition failingTranspiler :: transpiler where
  "failingTranspiler code options = Inl (Error ''Transform failed'')"

text \<open>For the cleanup: a \<open>Deno.remove\<close> that always succeeds, and a file.\<close>

definition removeAlways :: "string \<Rightarrow> bool" where
  "removeAlways name = True"

definition textFile :: dir_entry where
  "textFile = RegularFile (jsText ''export default 1'')"

text \<open>
  The wrapper and the state after \<open>new ClientFunction("fn", pingFn)\<close> in a fresh process.
\<close>

definition fnWrapper :: wrapper where
  "fnWrapper =
     \<lparr>fnName = ''fn'', fn = FnText ''handlers.fn_5d48cb26(this, event)'',
      filename = ''fn_5d48cb26'', sourceFileUrl = None, ownProps = []\<rparr>"

definition afterFn :: module_state where
  "afterFn =
     snd (ClientFunctionImpl (coldEnv None) ''fn'' (JFunction pingFn) None initial_state)"

text \<open>
  A fresh proxy after one and after two accesses of \<open>handlers.save\<close>, nothing loaded yet;
  then the host has loaded \<open>./save.js\<close>, whose default export is the function 7, and the
  promises of the two calls of \<open>import(...)\<close> have settled.
\<close>

definition afterFirstAccess :: proxy_state where
  "afterFirstAccess = snd (getTrap (StringKey ''save'') (createHandlerProxy ''.''))"

definition afterSecondAccess :: proxy_state where
  "afterSecondAccess = snd (getTrap (StringKey ''save'') afterFirstAccess)"

definition afterSaveLoaded :: proxy_state where
  "afterSaveLoaded =
     settleImport 1 (settleImport 0 (finishLoad ''./save.js'' (Fulfilled 7) afterSecondAccess))"

section \<open>The hash of the source text\<close>

lemma ToInt32_sint: "ToInt32 x = sint (word_of_int x :: 32 word)"
  by (simp add: ToInt32_def sint_sbintrunc' signed_take_bit_eq_take_bit_shift take_bit_eq_mod)

lemma word_of_int_ToInt32: "(word_of_int (ToInt32 x) :: 32 word) = word_of_int x"
  by (simp add: ToInt32_sint)

lemma ToInt32_idem: "ToInt32 (ToInt32 x) = ToInt32 x"
  by (simp add: ToInt32_sint)

lemma ToInt32_0: "ToInt32 0 = 0"
  by (simp add: ToInt32_def)

text \<open>One round of the loop is one step of the specification's hash, read as a word.\<close>

lemma hashStep_word:
  "(word_of_int (bitOrZero ((shiftLeft h 5 - h) + c)) :: 32 word)
     = rollingStep32 (word_of_int h) c"
  by (simp add: bitOrZero_def shiftLeft_def rollingStep32_def word_of_int_ToInt32 wi_hom_syms)

lemma hashLoop_word:
  "(word_of_int (hashLoop h cs) :: 32 word) = foldl rollingStep32 (word_of_int h) cs"
  by (induction cs arbitrary: h) (simp_all add: hashStep_word)

lemma hashLoop_int32: "ToInt32 h = h \<Longrightarrow> ToInt32 (hashLoop h cs) = hashLoop h cs"
  by (induction cs arbitrary: h) (simp_all add: bitOrZero_def ToInt32_idem)

lemma hashLoop_rollingHash32: "hashLoop 0 cs = rollingHash32 cs"
proof -
  have "hashLoop 0 cs = ToInt32 (hashLoop 0 cs)"
    by (simp add: hashLoop_int32 ToInt32_0)
  also have "\<dots> = sint (word_of_int (hashLoop 0 cs) :: 32 word)"
    by (rule ToInt32_sint)
  also have "\<dots> = rollingHash32 cs"
    by (simp add: hashLoop_word rollingHash32_def)
  finally show ?thesis .
qed

text \<open>\<open>toString16\<close> renders its argument in hexadecimal.\<close>

lemma hexDigitValue_hexDigit: "d < 16 \<Longrightarrow> hexDigitValue (hexDigit d) = d"
proof -
  assume "d < 16"
  then have "d = 0 \<or> d = 1 \<or> d = 2 \<or> d = 3 \<or> d = 4 \<or> d = 5 \<or> d = 6 \<or> d = 7 \<or> d = 8
      \<or> d = 9 \<or> d = 10 \<or> d = 11 \<or> d = 12 \<or> d = 13 \<or> d = 14 \<or> d = 15"
    by arith
  then show ?thesis
    by (elim disjE) (simp_all add: hexDigit_def hexDigitValue_def)
qed

lemma hexValue_snoc: "hexValue (digits @ [c]) = 16 * hexValue digits + hexDigitValue c"
  by (simp add: hexValue_def)

lemma hexValue_toString16: "hexValue (toString16 n) = n"
proof (induction n rule: toString16.induct)
  case (1 n)
  show ?case
  proof (cases "n < 16")
    case True
    then show ?thesis
      by (subst toString16.simps) (simp add: hexValue_def hexDigitValue_hexDigit)
  next
    case False
    then have "hexValue (toString16 n)
        = 16 * hexValue (toString16 (n div 16)) + hexDigitValue (hexDigit (n mod 16))"
      by (subst toString16.simps) (simp add: hexValue_snoc)
    then show ?thesis
      using False 1 by (simp add: hexDigitValue_hexDigit)
  qed
qed

lemma hashedFilename_pingFn: "hashedFilename name pingFn = name @ ''_5d48cb26''"
  by (simp add: hashedFilename_def pingFn_def jsText_def absHex_def charCodes_def bitOrZero_def
      shiftLeft_def ToInt32_def toString16.simps hexDigit_def)

section \<open>How the operations change the state\<close>

lemma loadCacheOnce_loaded [simp]: "cacheLoaded (loadCacheOnce e s)"
  by (simp add: loadCacheOnce_def split: option.splits)

lemma loadCacheOnce_id: "cacheLoaded s \<Longrightarrow> loadCacheOnce e s = s"
  by (simp add: loadCacheOnce_def)

lemma loadCacheOnce_memo [simp]:
  "sourceFileMtimeMemo (loadCacheOnce e s) = sourceFileMtimeMemo s"
  by (simp add: loadCacheOnce_def split: option.splits)

lemma loadCacheOnce_statCalls [simp]: "statCalls (loadCacheOnce e s) = statCalls s"
  by (simp add: loadCacheOnce_def split: option.splits)

lemma loadCacheOnce_hashingLog [simp]: "hashingLog (loadCacheOnce e s) = hashingLog s"
  by (simp add: loadCacheOnce_def split: option.splits)

lemma scheduleCacheFlush_fields [simp]:
  "cache (scheduleCacheFlush s) = cache s"
  "cacheLoaded (scheduleCacheFlush s) = cacheLoaded s"
  "cacheDirty (scheduleCacheFlush s) = cacheDirty s"
  "sourceFileMtimeMemo (scheduleCacheFlush s) = sourceFileMtimeMemo s"
  "statCalls (scheduleCacheFlush s) = statCalls s"
  "hashingLog (scheduleCacheFlush s) = hashingLog s"
  by (simp_all add: scheduleCacheFlush_def)

lemma resetFileEntry_fields [simp]:
  "cache (resetFileEntry u t s) = AList.update u \<lparr>mtimeMs = t, handlerIds = []\<rparr> (cache s)"
  "cacheLoaded (resetFileEntry u t s) = cacheLoaded s"
  "sourceFileMtimeMemo (resetFileEntry u t s) = sourceFileMtimeMemo s"
  "statCalls (resetFileEntry u t s) = statCalls s"
  "hashingLog (resetFileEntry u t s) = hashingLog s"
  by (simp_all add: resetFileEntry_def)

lemma storeCachedFilename_fields [simp]:
  "cacheLoaded (storeCachedFilename u t n r s) = cacheLoaded s"
  "sourceFileMtimeMemo (storeCachedFilename u t n r s) = sourceFileMtimeMemo s"
  "statCalls (storeCachedFilename u t n r s) = statCalls s"
  "hashingLog (storeCachedFilename u t n r s) = hashingLog s"
  by (simp_all add: storeCachedFilename_def Let_def)

lemma storeCachedFilename_cache:
  "map_of (cache (storeCachedFilename u t n r s)) u' =
     (if u' = u
      then Some ((case map_of (cache s) u of Some existing \<Rightarrow> existing
                  | None \<Rightarrow> \<lparr>mtimeMs = t, handlerIds = []\<rparr>)
                 \<lparr>handlerIds := AList.update n r
                    (handlerIds (case map_of (cache s) u of Some existing \<Rightarrow> existing
                                 | None \<Rightarrow> \<lparr>mtimeMs = t, handlerIds = []\<rparr>))\<rparr>)
      else map_of (cache s) u')"
  by (simp add: storeCachedFilename_def Let_def update_conv')

lemma memo_hit: "map_of (sourceFileMtimeMemo s) url = Some m \<Longrightarrow> getSourceFileMtimeMs e url s = (m, s)"
  by (simp add: getSourceFileMtimeMs_def)

lemma memo_after:
  "map_of (sourceFileMtimeMemo (snd (getSourceFileMtimeMs e url s))) url
     = Some (fst (getSourceFileMtimeMs e url s))"
  by (simp add: getSourceFileMtimeMs_def Let_def update_conv' split: option.splits)

lemma memo_kept:
  "map_of (sourceFileMtimeMemo s) u = Some m \<Longrightarrow>
     map_of (sourceFileMtimeMemo (snd (getSourceFileMtimeMs e url s))) u = Some m"
  by (auto simp add: getSourceFileMtimeMs_def Let_def update_conv' split: option.splits)

lemma getSourceFileMtimeMs_fields [simp]:
  "cache (snd (getSourceFileMtimeMs e url s)) = cache s"
  "cacheLoaded (snd (getSourceFileMtimeMs e url s)) = cacheLoaded s"
  "hashingLog (snd (getSourceFileMtimeMs e url s)) = hashingLog s"
  by (simp_all add: getSourceFileMtimeMs_def Let_def split: option.splits)

text \<open>
  The lookup of lines 145 to 159, by what \<open>getSourceFileMtimeMs\<close> returns.
\<close>

lemma lookup_readable:
  assumes "url \<noteq> []" and "getSourceFileMtimeMs e url s = (Some t, s1)"
  shows "lookupCachedFilename e name (Some url) s =
     (case map_of (cache s) url of
        None \<Rightarrow> (getProperty [] name, Some t, resetFileEntry url t s1)
      | Some entry \<Rightarrow>
          if mtimeMs entry \<noteq> t then (getProperty [] name, Some t, resetFileEntry url t s1)
          else (getProperty (handlerIds entry) name, Some t, s1))"
proof -
  have c: "cache s1 = cache s"
    using getSourceFileMtimeMs_fields(1) [of e url s] assms(2) by simp
  show ?thesis
    using assms
    by (simp add: lookupCachedFilename_def truthy_def Let_def c update_conv' split: option.splits)
qed

lemma lookup_unreadable:
  assumes "getSourceFileMtimeMs e url s = (None, s1)"
  shows "lookupCachedFilename e name (Some url) s = (None, None, if url = [] then s else s1)"
  using assms by (simp add: lookupCachedFilename_def truthy_def Let_def)

lemma getImportRegistry_fields [simp]:
  "cache (snd (getImportRegistry url s)) = cache s"
  "cacheLoaded (snd (getImportRegistry url s)) = cacheLoaded s"
  "sourceFileMtimeMemo (snd (getImportRegistry url s)) = sourceFileMtimeMemo s"
  "statCalls (snd (getImportRegistry url s)) = statCalls s"
  "hashingLog (snd (getImportRegistry url s)) = hashingLog s"
  by (simp_all add: getImportRegistry_def Let_def split: option.splits)

lemma registrySet_fields [simp]:
  "cache (registrySet key name file s) = cache s"
  "cacheLoaded (registrySet key name file s) = cacheLoaded s"
  "sourceFileMtimeMemo (registrySet key name file s) = sourceFileMtimeMemo s"
  "statCalls (registrySet key name file s) = statCalls s"
  "hashingLog (registrySet key name file s) = hashingLog s"
  by (simp_all add: registrySet_def split: option.splits)

lemma constructor_fields:
  "cache (snd (ClientFunctionImpl e name (JFunction f) url s))
     = cache (snd (resolveFilename e name f url s))"
  "cacheLoaded (snd (ClientFunctionImpl e name (JFunction f) url s))
     = cacheLoaded (snd (resolveFilename e name f url s))"
  "sourceFileMtimeMemo (snd (ClientFunctionImpl e name (JFunction f) url s))
     = sourceFileMtimeMemo (snd (resolveFilename e name f url s))"
  "statCalls (snd (ClientFunctionImpl e name (JFunction f) url s))
     = statCalls (snd (resolveFilename e name f url s))"
  "hashingLog (snd (ClientFunctionImpl e name (JFunction f) url s))
     = hashingLog (snd (resolveFilename e name f url s))"
  by (simp_all add: ClientFunctionImpl_def Let_def case_prod_beta)

lemma example_idents:
  "ident pingFn = 0" "ident pongFn = 1" "nameConfigurable pingFn" "nameConfigurable pongFn"
  by (simp_all add: pingFn_def pongFn_def)

text \<open>Reading a property: own properties first, then the members of \<open>Object.prototype\<close>.\<close>

lemma getProperty_own: "map_of obj key = Some v \<Longrightarrow> getProperty obj key = Some v"
  by (simp add: getProperty_def)

lemma getProperty_other:
  "key \<notin> set objectPrototypeNames \<Longrightarrow> getProperty obj key = map_of obj key"
  by (simp add: getProperty_def split: option.splits)

lemma getProperty_inherited:
  "key \<in> set objectPrototypeNames \<Longrightarrow> map_of obj key = None \<Longrightarrow>
     getProperty obj key = Some (memberText key)"
  by (simp add: getProperty_def)

lemma getProperty_update [simp]: "getProperty (AList.update key v obj) key = Some v"
  by (simp add: getProperty_def update_conv')

lemma memberText_not_Nil: "memberText key \<noteq> []"
  by (simp add: memberText_def)

lemma example_names_own:
  "''ping'' \<notin> set objectPrototypeNames" "''pong'' \<notin> set objectPrototypeNames"
  "''greet'' \<notin> set objectPrototypeNames" "''toString'' \<in> set objectPrototypeNames"
  by (simp_all add: objectPrototypeNames_def)

lemma hashedFilename_pongFn: "hashedFilename name pongFn = name @ ''_5d48cb07''"
  by (simp add: hashedFilename_def pongFn_def jsText_def absHex_def charCodes_def bitOrZero_def
      shiftLeft_def ToInt32_def toString16.simps hexDigit_def)

lemmas run_defs = ClientFunctionImpl_def resolveFilename_def lookupCachedFilename_def
  loadCacheOnce_def getSourceFileMtimeMs_def truthy_def storeCachedFilename_def
  getProperty_def objectPrototypeNames_def example_idents
  resetFileEntry_def scheduleCacheFlush_def setProperty_def getImportRegistry_def
  registrySet_def registryKey_def initial_state_def coldEnv_def fileA_def Let_def

lemma afterFirstPing_eq:
  "afterFirstPing =
     \<lparr>cacheLoaded = True, cacheDirty = True, cacheFlushScheduled = True,
      cache = [(fileA, \<lparr>mtimeMs = 100, handlerIds = [(''ping'', ''ping_5d48cb26'')]\<rparr>)],
      sourceFileMtimeMemo = [(fileA, Some 100)],
      handlers = [(ident pingFn,
         \<lparr>fnName = ''ping'', fn = Fn pingFn, filename = ''ping_5d48cb26'',
          sourceFileUrl = Some fileA,
          ownProps = [(''ping'', ''handlers.ping_5d48cb26(this, event)'')]\<rparr>)],
      importsBySourceFileUrl = [(fileA, [(''ping'', ''ping_5d48cb26'')])],
      microtasks = Suc 0, statCalls = [fileA], hashingLog = [''ping'']\<rparr>"
  by (simp add: afterFirstPing_def run_defs hashedFilename_pingFn)



section \<open>Resolving the identifier\<close>

lemma truthy_None: "\<not> truthy None"
  by (simp add: truthy_def)

lemma lookup_falsy_url:
  "\<not> truthy url \<Longrightarrow> lookupCachedFilename e name url s = (None, None, s)"
  by (simp add: lookupCachedFilename_def)

lemma hashedFilename_rollingHash32:
  "hashedFilename name f
     = name @ ''_'' @ toString16 (nat \<bar>rollingHash32 (charCodes (source f))\<bar>)"
  by (simp add: hashedFilename_def absHex_def hashLoop_rollingHash32)

lemma hashedFilename_lambdaFn: "hashedFilename name lambdaFn = name @ ''_2473f99''"
  by (simp add: hashedFilename_def lambdaFn_def jsText_def absHex_def charCodes_def bitOrZero_def
      shiftLeft_def ToInt32_def toString16.simps hexDigit_def)

text \<open>
  When the value read at line 157 is falsy, and always when there is no locator (absent or
  empty), the identifier is the handler name, an underscore and the hexadecimal digits of
  the absolute value of the 32-bit rolling hash (\<open>hash * 31 + charCode\<close>, wrapping) of the
  function's source text. Without a locator the cache is left as it is.
\<close>

lemma falsy_lookup_hashes:
  "(\<not> truthy (fst (lookupCachedFilename e name url (loadCacheOnce e s))) \<longrightarrow>
      fst (resolveFilename e name f url s)
        = name @ ''_'' @ toString16 (nat \<bar>rollingHash32 (charCodes (source f))\<bar>))
   \<and> (\<not> truthy url \<longrightarrow>
      fst (resolveFilename e name f url s)
        = name @ ''_'' @ toString16 (nat \<bar>rollingHash32 (charCodes (source f))\<bar>)
      \<and> cache (snd (resolveFilename e name f url s)) = cache (loadCacheOnce e s)
      \<and> hashingLog (snd (resolveFilename e name f url s)) = hashingLog s @ [name])"
proof -
  have miss: "fst (resolveFilename e name f url s) = hashedFilename name f"
    if "\<not> truthy (fst (lookupCachedFilename e name url (loadCacheOnce e s)))"
    using that by (cases "lookupCachedFilename e name url (loadCacheOnce e s)")
      (simp add: resolveFilename_def Let_def)
  have nourl: "resolveFilename e name f url s
      = (hashedFilename name f,
         (loadCacheOnce e s)\<lparr>hashingLog := hashingLog (loadCacheOnce e s) @ [name]\<rparr>)"
    if "\<not> truthy url"
    using that by (simp add: resolveFilename_def lookup_falsy_url truthy_None)
  have log: "hashingLog (loadCacheOnce e s) = hashingLog s"
    by (simp add: loadCacheOnce_def split: option.splits)
  show ?thesis
    using miss nourl by (simp add: hashedFilename_rollingHash32 log)
qed

text \<open>
  A handler name that no member of \<open>Object.prototype\<close> bears, and under which the cache
  holds nothing for the file, misses the cache whatever the file's time is, and gets the
  hashed identifier.
\<close>

lemma uncached_name_hashed:
  assumes "name \<notin> set objectPrototypeNames"
    and "\<And>entry. map_of (cache (loadCacheOnce e s)) url = Some entry
           \<Longrightarrow> map_of (handlerIds entry) name = None"
  shows "fst (lookupCachedFilename e name (Some url) (loadCacheOnce e s)) = None"
    and "fst (resolveFilename e name f (Some url) s)
           = name @ ''_'' @ toString16 (nat \<bar>rollingHash32 (charCodes (source f))\<bar>)"
proof -
  show look: "fst (lookupCachedFilename e name (Some url) (loadCacheOnce e s)) = None"
  proof (cases "url = []")
    case True
    then show ?thesis
      by (simp add: lookupCachedFilename_def truthy_def)
  next
    case False
    obtain m s1 where read: "getSourceFileMtimeMs e url (loadCacheOnce e s) = (m, s1)"
      by (cases "getSourceFileMtimeMs e url (loadCacheOnce e s)")
    show ?thesis
    proof (cases m)
      case None
      then show ?thesis
        using read by (simp add: lookup_unreadable)
    next
      case (Some t)
      then show ?thesis
        using read assms False
        by (auto simp add: lookup_readable getProperty_other split: option.splits)
    qed
  qed
  then have "\<not> truthy (fst (lookupCachedFilename e name (Some url) (loadCacheOnce e s)))"
    by (simp add: truthy_def)
  then show "fst (resolveFilename e name f (Some url) s)
      = name @ ''_'' @ toString16 (nat \<bar>rollingHash32 (charCodes (source f))\<bar>)"
    using falsy_lookup_hashes [of e name "Some url" s f] by simp
qed

text \<open>
  The specification's scenario, and a function whose source text has a code unit above 255
  registered for a file of the time 100 that the cache does not know.
\<close>

lemma resolved_examples:
  "fst (resolveFilename (coldEnv None) ''ping'' pingFn None initial_state) = ''ping_5d48cb26''"
  "hashingLog (snd (resolveFilename (coldEnv None) ''ping'' pingFn None initial_state))
     = [''ping'']"
  "fst (resolveFilename (coldEnv (Some 100)) ''greet'' lambdaFn (Some fileA) initial_state)
     = ''greet_2473f99''"
proof -
  show "fst (resolveFilename (coldEnv None) ''ping'' pingFn None initial_state) = ''ping_5d48cb26''"
    using falsy_lookup_hashes [of "coldEnv None" "''ping''" None initial_state pingFn]
      hashedFilename_pingFn [of "''ping''"]
    by (simp add: truthy_None hashedFilename_rollingHash32)
  show "hashingLog (snd (resolveFilename (coldEnv None) ''ping'' pingFn None initial_state))
     = [''ping'']"
    using falsy_lookup_hashes [of "coldEnv None" "''ping''" None initial_state pingFn]
    by (simp add: truthy_None initial_state_def)
  have "cache (loadCacheOnce (coldEnv (Some 100)) initial_state) = []"
    by (simp add: loadCacheOnce_def coldEnv_def initial_state_def)
  then show "fst (resolveFilename (coldEnv (Some 100)) ''greet'' lambdaFn (Some fileA) initial_state)
     = ''greet_2473f99''"
    using uncached_name_hashed(2) [of "''greet''" "coldEnv (Some 100)" initial_state fileA lambdaFn]
      hashedFilename_lambdaFn [of "''greet''"]
    by (simp add: example_names_own hashedFilename_rollingHash32)
qed

text \<open>
  Claim C4, at the handler name \<open>toString\<close>. The process is fresh, there is no cache file,
  and \<open>fileA\<close> has the time 100: the registration finds nothing in the cache. Line 152
  stores an entry with the empty object \<open>{}\<close> for the file's handlers, and line 157 reads
  \<open>handlers["toString"]\<close> from it, which is the function \<open>Object.prototype.toString\<close>. The
  value is truthy, so line 163 takes it for a cached identifier: the hashing loop does not
  run, and the resolved identifier is that function (here its text) and not
  \<open>toString_5d48cb26\<close>, the name with the hash of the source text.
\<close>

theorem inherited_name_not_hashed:
  "map_of (cache (loadCacheOnce (coldEnv (Some 100)) initial_state)) fileA = None
   \<and> fst (resolveFilename (coldEnv (Some 100)) ''toString'' pingFn (Some fileA) initial_state)
       = ''function toString() { [native code] }''
   \<and> hashingLog (snd (resolveFilename (coldEnv (Some 100)) ''toString'' pingFn (Some fileA)
                         initial_state)) = []
   \<and> ''toString'' @ ''_'' @ toString16 (nat \<bar>rollingHash32 (charCodes (source pingFn))\<bar>)
       = ''toString_5d48cb26''"
proof -
  have run: "resolveFilename (coldEnv (Some 100)) ''toString'' pingFn (Some fileA) initial_state
      = (''function toString() { [native code] }'',
         \<lparr>cacheLoaded = True, cacheDirty = True, cacheFlushScheduled = True,
          cache = [(fileA, \<lparr>mtimeMs = 100, handlerIds = []\<rparr>)],
          sourceFileMtimeMemo = [(fileA, Some 100)], handlers = [],
          importsBySourceFileUrl = [], microtasks = Suc 0, statCalls = [fileA],
          hashingLog = []\<rparr>)"
    by (simp add: resolveFilename_def lookupCachedFilename_def loadCacheOnce_def
        getSourceFileMtimeMs_def truthy_def resetFileEntry_def scheduleCacheFlush_def
        getProperty_def objectPrototypeNames_def memberText_def initial_state_def coldEnv_def
        fileA_def Let_def)
  have digits: "''toString'' @ ''_'' @ toString16 (nat \<bar>rollingHash32 (charCodes (source pingFn))\<bar>)
      = ''toString_5d48cb26''"
    using hashedFilename_pingFn [of "''toString''"] by (simp add: hashedFilename_rollingHash32)
  have fresh: "map_of (cache (loadCacheOnce (coldEnv (Some 100)) initial_state)) fileA = None"
    by (simp add: loadCacheOnce_def coldEnv_def initial_state_def)
  show ?thesis
    using digits fresh by (simp add: run)
qed

section \<open>Rejecting a non-function\<close>

text \<open>
  Claim C10. When the second argument is not a function the constructor throws at once:
  the result is the error and the state is the state before the call, so the handler map,
  the import registries, the cache and its dirty flag, the memo of modification times and
  the queue of flush callbacks are all untouched.
\<close>

theorem non_function_rejected:
  "\<not> typeofFunction fnArg \<Longrightarrow>
     ClientFunctionImpl e name fnArg url s
       = (Inl (Error ''ClientFunction requires a function''), s)"
  by (cases fnArg) (simp_all add: ClientFunctionImpl_def typeofFunction_def)

theorem non_function_rejected_witness:
  "\<not> typeofFunction (JString ''handler'')
   \<and> ClientFunctionImpl (coldEnv (Some 100)) ''ping'' (JString ''handler'') (Some fileA)
         initial_state
       = (Inl (Error ''ClientFunction requires a function''), initial_state)"
proof -
  have h: "\<not> typeofFunction (JString ''handler'')"
    by (simp add: typeofFunction_def)
  show ?thesis
    using h non_function_rejected [OF h] by simp
qed

section \<open>The handler-invocation string\<close>

lemma constructor_wrapper:
  "nameConfigurable f \<Longrightarrow>
   fst (ClientFunctionImpl e name (JFunction f) url s)
     = Inr (setProperty name (''handlers.'' @ fst (resolveFilename e name f url s) @ ''(this, event)'')
             \<lparr>fnName = name, fn = Fn f, filename = fst (resolveFilename e name f url s),
              sourceFileUrl = url, ownProps = []\<rparr>)"
  by (simp add: ClientFunctionImpl_def Let_def case_prod_beta)

lemma constructor_returns_configurable:
  "ClientFunctionImpl e name (JFunction f) url s = (Inr w, s') \<Longrightarrow> nameConfigurable f"
  by (auto simp add: ClientFunctionImpl_def Let_def case_prod_beta split: if_splits)

text \<open>
  Under every name but \<open>filename\<close> the wrapper's \<open>filename\<close> is the resolved identifier
  and the property of that name is the invocation string built from it.
\<close>

lemma invocation_string_other_names:
  assumes "ClientFunctionImpl e name (JFunction f) url s = (Inr w, s')"
    and "name \<noteq> ''filename''"
  shows "filename w = fst (resolveFilename e name f url s)
    \<and> getStringProperty w name = Some (''handlers.'' @ filename w @ ''(this, event)'')"
proof -
  have conf: "nameConfigurable f"
    using assms(1) by (rule constructor_returns_configurable)
  have "Inr w = fst (ClientFunctionImpl e name (JFunction f) url s)"
    using assms(1) by simp
  then show ?thesis
    using assms(2)
    by (simp add: constructor_wrapper [OF conf] setProperty_def getStringProperty_def)
qed

text \<open>
  Claim C3, at the handler name \<open>filename\<close>. Line 188 stores the resolved identifier in
  \<open>this.filename\<close>; line 191 then assigns the invocation string to \<open>this["filename"]\<close>,
  the same property. The wrapper's \<open>filename\<close> is now the invocation string itself, and
  the property named \<open>filename\<close> is not \<open>handlers.<filename>(this, event)\<close> for that
  field.
\<close>

theorem handler_named_filename:
  "fst (ClientFunctionImpl (coldEnv None) ''filename'' (JFunction pingFn) None initial_state)
     = Inr \<lparr>fnName = ''filename'', fn = Fn pingFn,
            filename = ''handlers.filename_5d48cb26(this, event)'',
            sourceFileUrl = None, ownProps = []\<rparr>
   \<and> getStringProperty
        \<lparr>fnName = ''filename'', fn = Fn pingFn,
         filename = ''handlers.filename_5d48cb26(this, event)'',
         sourceFileUrl = None, ownProps = []\<rparr> ''filename''
       \<noteq> Some (''handlers.'' @ ''handlers.filename_5d48cb26(this, event)'' @ ''(this, event)'')"
  by (simp add: constructor_wrapper example_idents resolveFilename_def lookup_falsy_url
      truthy_None hashedFilename_pingFn setProperty_def getStringProperty_def Let_def)

section \<open>Invalidation by modification time\<close>

text \<open>
  Claim C5 as stated fails: the time compared with the cache is the memoized one. After a
  first registration at time 100, the file is edited (time 200); a second registration in
  the same process reads 100 from the memo, finds the entry current, and the lookup hits.
\<close>

theorem edited_file_not_invalidated:
  "statMtime (coldEnv (Some 200)) fileA = Some 200
   \<and> map_of (cache (loadCacheOnce (coldEnv (Some 200)) afterFirstPing)) fileA
       = Some \<lparr>mtimeMs = 100, handlerIds = [(''ping'', ''ping_5d48cb26'')]\<rparr>
   \<and> fst (lookupCachedFilename (coldEnv (Some 200)) ''ping'' (Some fileA)
             (loadCacheOnce (coldEnv (Some 200)) afterFirstPing))
       = Some ''ping_5d48cb26''"
  by (simp add: afterFirstPing_eq lookupCachedFilename_def loadCacheOnce_def
      getSourceFileMtimeMs_def truthy_def coldEnv_def fileA_def Let_def getProperty_def)

text \<open>
  Claim C5, amended. When the modification time that \<open>getSourceFileMtimeMs\<close> returns for
  a non-empty locator (the first reading in the process, memoized from then on) differs from
  the time recorded in the cache for that file, the file's entry is replaced by one with the
  new time and no handlers before the lookup, whatever the handler name is. For a handler
  name that no member of \<open>Object.prototype\<close> bears the lookup then misses, and after the
  registration the entry holds the one identifier just computed and none of those cached
  before.
\<close>

theorem stale_entry_discarded:
  assumes "url \<noteq> []"
    and "fst (getSourceFileMtimeMs e url (loadCacheOnce e s)) = Some t"
    and "map_of (cache (loadCacheOnce e s)) url = Some entry"
    and "mtimeMs entry \<noteq> t"
  shows "map_of (cache (snd (snd (lookupCachedFilename e name (Some url) (loadCacheOnce e s))))) url
        = Some \<lparr>mtimeMs = t, handlerIds = []\<rparr>
    \<and> (name \<notin> set objectPrototypeNames \<longrightarrow>
         fst (lookupCachedFilename e name (Some url) (loadCacheOnce e s)) = None
         \<and> map_of (cache (snd (resolveFilename e name f (Some url) s))) url
             = Some \<lparr>mtimeMs = t, handlerIds = [(name, hashedFilename name f)]\<rparr>)"
proof -
  obtain s1 where read: "getSourceFileMtimeMs e url (loadCacheOnce e s) = (Some t, s1)"
    using assms(2) by (cases "getSourceFileMtimeMs e url (loadCacheOnce e s)") simp
  have look: "lookupCachedFilename e name (Some url) (loadCacheOnce e s)
      = (getProperty [] name, Some t, resetFileEntry url t s1)"
    using assms(3,4) by (simp add: lookup_readable [OF assms(1) read])
  have reset: "map_of (cache (resetFileEntry url t s1)) url = Some \<lparr>mtimeMs = t, handlerIds = []\<rparr>"
    by (simp add: update_conv')
  have own: "map_of (cache (snd (resolveFilename e name f (Some url) s))) url
      = Some \<lparr>mtimeMs = t, handlerIds = [(name, hashedFilename name f)]\<rparr>"
    if "name \<notin> set objectPrototypeNames"
  proof -
    have "snd (resolveFilename e name f (Some url) s)
        = storeCachedFilename url t name (hashedFilename name f)
            ((resetFileEntry url t s1)\<lparr>hashingLog := hashingLog (resetFileEntry url t s1) @ [name]\<rparr>)"
      using assms(1) that
      by (simp add: resolveFilename_def look truthy_def Let_def getProperty_other)
    then show ?thesis
      using reset by (simp add: storeCachedFilename_cache)
  qed
  show ?thesis
    using reset own by (simp add: look getProperty_other)
qed

theorem stale_entry_discarded_witness:
  "fileA \<noteq> []
   \<and> fst (getSourceFileMtimeMs warmEnv fileA (loadCacheOnce warmEnv initial_state)) = Some 100
   \<and> map_of (cache (loadCacheOnce warmEnv initial_state)) fileA
       = Some \<lparr>mtimeMs = 50, handlerIds = [(''ping'', ''ping_1a2b''), (''pong'', ''pong_3c4d'')]\<rparr>
   \<and> mtimeMs \<lparr>mtimeMs = 50, handlerIds = [(''ping'', ''ping_1a2b''), (''pong'', ''pong_3c4d'')]\<rparr>
       \<noteq> 100
   \<and> ''pong'' \<notin> set objectPrototypeNames
   \<and> map_of (cache (snd (snd (lookupCachedFilename warmEnv ''pong'' (Some fileA)
                                 (loadCacheOnce warmEnv initial_state))))) fileA
       = Some \<lparr>mtimeMs = 100, handlerIds = []\<rparr>
   \<and> fst (lookupCachedFilename warmEnv ''pong'' (Some fileA) (loadCacheOnce warmEnv initial_state))
       = None
   \<and> map_of (cache (snd (resolveFilename warmEnv ''pong'' pongFn (Some fileA) initial_state))) fileA
       = Some \<lparr>mtimeMs = 100, handlerIds = [(''pong'', ''pong_5d48cb07'')]\<rparr>"
proof -
  have h1: "fileA \<noteq> []"
    by (simp add: fileA_def)
  have h2: "fst (getSourceFileMtimeMs warmEnv fileA (loadCacheOnce warmEnv initial_state)) = Some 100"
    by (simp add: getSourceFileMtimeMs_def loadCacheOnce_def warmEnv_def initial_state_def Let_def)
  have h3: "map_of (cache (loadCacheOnce warmEnv initial_state)) fileA
      = Some \<lparr>mtimeMs = 50, handlerIds = [(''ping'', ''ping_1a2b''), (''pong'', ''pong_3c4d'')]\<rparr>"
    by (simp add: loadCacheOnce_def warmEnv_def initial_state_def)
  have h4: "mtimeMs \<lparr>mtimeMs = 50, handlerIds = [(''ping'', ''ping_1a2b''), (''pong'', ''pong_3c4d'')]\<rparr>
      \<noteq> 100"
    by simp
  have h5: "''pong'' \<notin> set objectPrototypeNames"
    by (rule example_names_own)
  show ?thesis
    using h1 h2 h3 h5 stale_entry_discarded [OF h1 h2 h3 h4, of "''pong''" pongFn]
    by (simp add: hashedFilename_pongFn)
qed

section \<open>Registering the same handler twice\<close>








section \<open>The memo of modification times\<close>

lemma memoCoherent_cong:
  "sourceFileMtimeMemo s' = sourceFileMtimeMemo s \<Longrightarrow> statCalls s' = statCalls s \<Longrightarrow>
   cacheLoaded s' = cacheLoaded s \<Longrightarrow> cache s' = cache s \<Longrightarrow>
   memoCoherent s' = memoCoherent s"
  by (simp add: memoCoherent_def)

lemma memoCoherent_initial: "memoCoherent initial_state"
  by (simp add: memoCoherent_def initial_state_def)

lemma memoCoherent_load: "memoCoherent s \<Longrightarrow> memoCoherent (loadCacheOnce e s)"
proof (cases "cacheLoaded s")
  case True
  assume "memoCoherent s"
  then show ?thesis using True by (simp add: loadCacheOnce_id)
next
  case False
  assume inv: "memoCoherent s"
  then have "statCalls s = []" using False by (auto simp add: memoCoherent_def)
  then have "\<forall>u. map_of (sourceFileMtimeMemo s) u = None"
    using inv by (simp add: memoCoherent_def)
  then show ?thesis
    using inv \<open>statCalls s = []\<close> by (simp add: memoCoherent_def)
qed

lemma memoCoherent_reset:
  assumes "memoCoherent s" and "map_of (sourceFileMtimeMemo s) u = Some (Some t)"
  shows "memoCoherent (resetFileEntry u t s)"
  using assms unfolding memoCoherent_def
  by (simp add: update_conv')

lemma memoCoherent_read_None:
  assumes "memoCoherent s" and "cacheLoaded s" and "map_of (sourceFileMtimeMemo s) u = None"
  shows "memoCoherent (s\<lparr>sourceFileMtimeMemo := AList.update u None (sourceFileMtimeMemo s),
                          statCalls := statCalls s @ [u]\<rparr>)"
  using assms unfolding memoCoherent_def
  by (simp add: update_conv')

lemma memoCoherent_read_Some:
  assumes "memoCoherent s" and "cacheLoaded s" and "map_of (sourceFileMtimeMemo s) u = None"
    and "map_of (cache s) u = Some entry" and "mtimeMs entry = t"
  shows "memoCoherent (s\<lparr>sourceFileMtimeMemo := AList.update u (Some t) (sourceFileMtimeMemo s),
                          statCalls := statCalls s @ [u]\<rparr>)"
  using assms unfolding memoCoherent_def
  by (simp add: update_conv')

lemma memoCoherent_read_reset:
  assumes "memoCoherent s" and "cacheLoaded s" and "map_of (sourceFileMtimeMemo s) u = None"
  shows "memoCoherent (resetFileEntry u t
           (s\<lparr>sourceFileMtimeMemo := AList.update u (Some t) (sourceFileMtimeMemo s),
              statCalls := statCalls s @ [u]\<rparr>))"
  using assms unfolding memoCoherent_def
  by (simp add: update_conv')

lemma memoCoherent_lookup:
  assumes "memoCoherent s" and "cacheLoaded s"
  shows "memoCoherent (snd (snd (lookupCachedFilename e name url s)))"
proof (cases "truthy url")
  case False
  then show ?thesis using assms by (simp add: lookup_falsy_url)
next
  case True
  then obtain u where u: "url = Some u" "u \<noteq> []"
    by (auto simp add: truthy_def split: option.splits)
  show ?thesis
  proof (cases "map_of (sourceFileMtimeMemo s) u")
    case (Some m)
    then have read: "getSourceFileMtimeMs e u s = (m, s)" by (rule memo_hit)
    show ?thesis
    proof (cases m)
      case None
      then show ?thesis using assms read u by (simp add: lookup_unreadable)
    next
      case (Some t)
      then show ?thesis
        using assms read u \<open>map_of (sourceFileMtimeMemo s) u = Some m\<close>
        by (auto simp add: lookup_readable memoCoherent_reset split: option.splits)
    qed
  next
    case None
    show ?thesis
    proof (cases "statMtime e u")
      case None': None
      have read: "getSourceFileMtimeMs e u s
          = (None, s\<lparr>sourceFileMtimeMemo := AList.update u None (sourceFileMtimeMemo s),
                       statCalls := statCalls s @ [u]\<rparr>)"
        using None None' by (simp add: getSourceFileMtimeMs_def Let_def)
      show ?thesis
        using u memoCoherent_read_None [OF assms None]
        by (simp add: lookup_unreadable [OF read])
    next
      case (Some t)
      have read: "getSourceFileMtimeMs e u s
          = (Some t, s\<lparr>sourceFileMtimeMemo := AList.update u (Some t) (sourceFileMtimeMemo s),
                         statCalls := statCalls s @ [u]\<rparr>)"
        using None Some by (simp add: getSourceFileMtimeMs_def Let_def)
      show ?thesis
        using u memoCoherent_read_reset [OF assms None, of t]
          memoCoherent_read_Some [OF assms None, of _ t]
        by (auto simp add: lookup_readable [OF u(2) read] split: option.splits)
    qed
  qed
qed

lemma memoCoherent_store:
  assumes "memoCoherent s"
  shows "memoCoherent (storeCachedFilename u t n r s)"
proof -
  have "\<exists>entry. map_of (cache (storeCachedFilename u t n r s)) u' = Some entry
           \<and> mtimeMs entry = t'"
    if memo: "map_of (sourceFileMtimeMemo s) u' = Some (Some t')" for u' t'
  proof -
    have "\<forall>u t. map_of (sourceFileMtimeMemo s) u = Some (Some t) \<longrightarrow>
             (\<exists>entry. map_of (cache s) u = Some entry \<and> mtimeMs entry = t)"
      using assms by (simp add: memoCoherent_def)
    then obtain entry where "map_of (cache s) u' = Some entry" "mtimeMs entry = t'"
      using memo by blast
    then show ?thesis
      by (auto simp add: storeCachedFilename_cache)
  qed
  then show ?thesis
    using assms by (simp add: memoCoherent_def)
qed

lemma memoCoherent_resolve:
  assumes "memoCoherent s"
  shows "memoCoherent (snd (resolveFilename e name f url s))"
proof -
  obtain c m s1 where look: "lookupCachedFilename e name url (loadCacheOnce e s) = (c, m, s1)"
    by (cases "lookupCachedFilename e name url (loadCacheOnce e s)") auto
  have s1: "memoCoherent s1"
    using memoCoherent_lookup [OF memoCoherent_load [OF assms], of e e name url] look by simp
  have logged: "memoCoherent (s1\<lparr>hashingLog := hashingLog s1 @ [name]\<rparr>)"
    using s1 by (simp add: memoCoherent_def)
  show ?thesis
    using s1 logged by (simp add: resolveFilename_def look Let_def memoCoherent_store)
qed

lemma memoCoherent_constructor:
  assumes "memoCoherent s"
  shows "memoCoherent (snd (ClientFunctionImpl e name fnArg url s))"
proof (cases fnArg)
  case (JFunction f)
  have "memoCoherent (snd (ClientFunctionImpl e name (JFunction f) url s))
      = memoCoherent (snd (resolveFilename e name f url s))"
    by (rule memoCoherent_cong) (simp_all add: constructor_fields)
  then show ?thesis
    using JFunction memoCoherent_resolve [OF assms] by simp
qed (use assms in \<open>simp_all add: ClientFunctionImpl_def\<close>)

lemma memoCoherent_register: "memoCoherent s \<Longrightarrow> memoCoherent (register w targetUrl s)"
proof -
  have "memoCoherent (register w targetUrl s) = memoCoherent s"
    by (rule memoCoherent_cong) (simp_all add: register_def case_prod_beta)
  then show "memoCoherent s \<Longrightarrow> memoCoherent (register w targetUrl s)" by simp
qed

lemma memoCoherent_flush: "memoCoherent s \<Longrightarrow> memoCoherent (cacheFlushMicrotask e s)"
  by (simp add: memoCoherent_def cacheFlushMicrotask_def Let_def)

lemma memoCoherent_buildCode: "memoCoherent s \<Longrightarrow> memoCoherent (snd (buildCode transform w s))"
proof -
  have "memoCoherent (snd (buildCode transform w s)) = memoCoherent s"
    by (rule memoCoherent_cong) (simp_all add: buildCode_def Let_def case_prod_beta)
  then show "memoCoherent s \<Longrightarrow> memoCoherent (snd (buildCode transform w s))" by simp
qed

lemma evolves_memoCoherent: "evolves s s' \<Longrightarrow> memoCoherent s \<Longrightarrow> memoCoherent s'"
  by (induction rule: evolves.induct)
    (simp_all add: memoCoherent_constructor memoCoherent_register memoCoherent_flush
      memoCoherent_buildCode)

lemma lookup_memo_kept:
  assumes "map_of (sourceFileMtimeMemo s) u = Some m"
  shows "map_of (sourceFileMtimeMemo (snd (snd (lookupCachedFilename e name url s)))) u = Some m"
proof -
  obtain r s1 where read: "getSourceFileMtimeMs e (the url) s = (r, s1)"
    by (cases "getSourceFileMtimeMs e (the url) s")
  have "map_of (sourceFileMtimeMemo s1) u = Some m"
    using memo_kept [OF assms, of e "the url"] read by simp
  then show ?thesis
    using assms by (simp add: lookupCachedFilename_def read Let_def split: option.splits)
qed

lemma resolve_memo_kept:
  assumes "map_of (sourceFileMtimeMemo s) u = Some m"
  shows "map_of (sourceFileMtimeMemo (snd (resolveFilename e name f url s))) u = Some m"
proof -
  obtain c r s1 where look: "lookupCachedFilename e name url (loadCacheOnce e s) = (c, r, s1)"
    by (cases "lookupCachedFilename e name url (loadCacheOnce e s)") auto
  have "map_of (sourceFileMtimeMemo s1) u = Some m"
    using lookup_memo_kept [of "loadCacheOnce e s" u m e name url] assms look by simp
  then show ?thesis
    by (simp add: resolveFilename_def look Let_def)
qed

lemma constructor_memo_kept:
  assumes "map_of (sourceFileMtimeMemo s) u = Some m"
  shows "map_of (sourceFileMtimeMemo (snd (ClientFunctionImpl e name fnArg url s))) u = Some m"
proof (cases fnArg)
  case (JFunction f)
  then show ?thesis
    using resolve_memo_kept [OF assms] by (simp add: constructor_fields)
qed (use assms in \<open>simp_all add: ClientFunctionImpl_def\<close>)

lemma evolves_memo_kept:
  "evolves s s' \<Longrightarrow> map_of (sourceFileMtimeMemo s) u = Some m \<Longrightarrow>
     map_of (sourceFileMtimeMemo s') u = Some m"
proof (induction rule: evolves.induct)
  case (no_step s)
  then show ?case by simp
next
  case (constructor_step s s' e name fnArg url)
  then show ?case by (simp add: constructor_memo_kept)
next
  case (register_step s s' w targetUrl)
  then show ?case by (simp add: register_def case_prod_beta)
next
  case (flush_step s s' e)
  then show ?case by (simp add: cacheFlushMicrotask_def Let_def)
next
  case (buildCode_step s s' transform w)
  then show ?case by (simp add: buildCode_def Let_def case_prod_beta)
qed

lemma constructor_memoizes:
  assumes "url \<noteq> []"
  shows "map_of (sourceFileMtimeMemo (snd (ClientFunctionImpl e name (JFunction f) (Some url) s))) url
     \<noteq> None"
proof -
  obtain r s1 where read: "getSourceFileMtimeMs e url (loadCacheOnce e s) = (r, s1)"
    by (cases "getSourceFileMtimeMs e url (loadCacheOnce e s)")
  have m1: "map_of (sourceFileMtimeMemo s1) url = Some r"
    using memo_after [of e url "loadCacheOnce e s"] read by simp
  have "map_of (sourceFileMtimeMemo (snd (snd (lookupCachedFilename e name (Some url)
            (loadCacheOnce e s))))) url = Some r"
    using assms m1
    by (simp add: lookupCachedFilename_def truthy_def read Let_def split: option.splits)
  then have "map_of (sourceFileMtimeMemo (snd (resolveFilename e name f (Some url) s))) url = Some r"
    by (cases "lookupCachedFilename e name (Some url) (loadCacheOnce e s)")
      (simp add: resolveFilename_def Let_def)
  then show ?thesis
    by (simp add: constructor_fields)
qed

lemma memoCoherent_entry:
  "memoCoherent s \<Longrightarrow> map_of (sourceFileMtimeMemo s) u = Some (Some t) \<Longrightarrow>
     \<exists>entry. map_of (cache s) u = Some entry \<and> mtimeMs entry = t"
  unfolding memoCoherent_def by blast

lemma no_invalidation:
  assumes "memoCoherent s" and "map_of (sourceFileMtimeMemo s) url = Some m"
  shows "cache (snd (snd (lookupCachedFilename e name (Some url) (loadCacheOnce e s)))) = cache s"
proof -
  have "statCalls s \<noteq> []"
    using assms by (auto simp add: memoCoherent_def)
  then have loaded: "loadCacheOnce e s = s"
    using assms(1) by (simp add: memoCoherent_def loadCacheOnce_id)
  have read: "getSourceFileMtimeMs e url s = (m, s)"
    using assms(2) by (rule memo_hit)
  show ?thesis
  proof (cases m)
    case None
    then show ?thesis using read by (simp add: loaded lookup_unreadable)
  next
    case (Some t)
    then obtain entry where "map_of (cache s) url = Some entry" "mtimeMs entry = t"
      using memoCoherent_entry [OF assms(1), of url t] assms(2) by auto
    then show ?thesis
      using read Some
      by (cases "url = []") (simp_all add: loaded lookup_readable lookup_falsy_url truthy_def)
  qed
qed

text \<open>
  Claim C9. In a process, \<open>Deno.statSync\<close> is called at most once for a locator; a
  registration that names a non-empty locator leaves it in the memo, a failure included.
  From then on, for as long as the process runs and whatever the file's time has become,
  \<open>getSourceFileMtimeMs\<close> answers with the memoized value without touching the state, and
  the lookup of a registration under that locator leaves the cache as it is: the entry is
  never reset. A different time can only be seen by a process that starts with an empty
  memo.
\<close>

theorem mtime_read_once:
  assumes "evolves initial_state s"
  shows "distinct (statCalls s)
    \<and> (url \<noteq> [] \<longrightarrow>
         map_of (sourceFileMtimeMemo (snd (ClientFunctionImpl e0 name0 (JFunction f0) (Some url) s)))
           url \<noteq> None)
    \<and> (\<forall>m s' e name.
          map_of (sourceFileMtimeMemo s) url = Some m \<and> evolves s s' \<longrightarrow>
            getSourceFileMtimeMs e url s' = (m, s')
            \<and> cache (snd (snd (lookupCachedFilename e name (Some url) (loadCacheOnce e s'))))
                = cache s')"
proof -
  have inv: "memoCoherent s"
    using evolves_memoCoherent [OF assms memoCoherent_initial] .
  have later: "getSourceFileMtimeMs e url s' = (m, s')
      \<and> cache (snd (snd (lookupCachedFilename e name (Some url) (loadCacheOnce e s')))) = cache s'"
    if "map_of (sourceFileMtimeMemo s) url = Some m" and "evolves s s'" for m s' e name
  proof -
    have kept: "map_of (sourceFileMtimeMemo s') url = Some m"
      using evolves_memo_kept [OF that(2) that(1)] .
    have "memoCoherent s'"
      using evolves_memoCoherent [OF that(2) inv] .
    then show ?thesis
      using kept by (simp add: memo_hit no_invalidation)
  qed
  show ?thesis
    using inv later by (simp add: memoCoherent_def constructor_memoizes)
qed

theorem mtime_read_once_witness:
  "evolves initial_state afterFirstPing
   \<and> distinct (statCalls afterFirstPing)
   \<and> map_of (sourceFileMtimeMemo afterFirstPing) fileA = Some (Some 100)
   \<and> statMtime (coldEnv (Some 200)) fileA = Some 200
   \<and> getSourceFileMtimeMs (coldEnv (Some 200)) fileA afterFirstPing = (Some 100, afterFirstPing)
   \<and> cache (snd (snd (lookupCachedFilename (coldEnv (Some 200)) ''ping'' (Some fileA)
                         (loadCacheOnce (coldEnv (Some 200)) afterFirstPing))))
       = cache afterFirstPing"
proof -
  have ev: "evolves initial_state afterFirstPing"
    unfolding afterFirstPing_def by (rule constructor_step) (rule no_step)
  have memo: "map_of (sourceFileMtimeMemo afterFirstPing) fileA = Some (Some 100)"
    by (simp add: afterFirstPing_eq)
  have stay: "evolves afterFirstPing afterFirstPing"
    by (rule no_step)
  have "getSourceFileMtimeMs (coldEnv (Some 200)) fileA afterFirstPing = (Some 100, afterFirstPing)
      \<and> cache (snd (snd (lookupCachedFilename (coldEnv (Some 200)) ''ping'' (Some fileA)
                            (loadCacheOnce (coldEnv (Some 200)) afterFirstPing))))
          = cache afterFirstPing"
    using mtime_read_once [OF ev, of fileA] memo stay by blast
  then show ?thesis
    using ev memo mtime_read_once [OF ev, of fileA] by (simp add: coldEnv_def)
qed

section \<open>Building a handler module\<close>

lemma importLinesLoop_filter:
  "importLinesLoop me file entries acc
     = acc @ map (\<lambda>(n, f). importLine n f) (filter (\<lambda>(n, f). n \<noteq> me \<and> f \<noteq> file) entries)"
  by (induction entries arbitrary: acc) auto

lemma fnToString_Fn: "fnToString (Fn f) = source f"
  by (simp add: fnToString_def)

lemma jsText_append: "jsText (a @ b) = jsText a @ jsText b"
  by (simp add: jsText_def)

text \<open>
  When the transpiler fails on the composite text, \<open>buildCode\<close> returns that text: the
  import lines of the registry's other entries joined by newlines, a newline, and
  \<open>export default\<close> followed by what \<open>this.fn.toString()\<close> returns. While the \<open>fn\<close> field
  holds the function, that is the function's source text.
\<close>

lemma transform_failure_returns_composite:
  assumes "transform (functionCode w (fst (getImportRegistry (sourceFileUrl w) s))) buildCodeOptions
             = Inl err"
  shows "fst (buildCode transform w s)
     = jsText (join newline
         (map (\<lambda>(n, f). importLine n f)
            (filter (\<lambda>(n, f). n \<noteq> fnName w \<and> f \<noteq> filename w)
               (fst (getImportRegistry (sourceFileUrl w) s)))))
       @ jsText newline @ jsText ''export default '' @ fnToString (fn w)"
  using assms
  by (simp add: buildCode_def Let_def case_prod_beta)
    (simp add: functionCode_def importLinesLoop_filter)

lemma transform_failure_example:
  \<open>fst (buildCode failingTranspiler pingWrapper twoHandlers)
     = jsText (''import { default as pong } from "./pong_5d48cb07.js";'' @ newline
               @ ''export default '') @ source pingFn\<close>
proof -
  have h: "failingTranspiler
      (functionCode pingWrapper (fst (getImportRegistry (sourceFileUrl pingWrapper) twoHandlers)))
      buildCodeOptions = Inl (Error ''Transform failed'')"
    by (simp add: failingTranspiler_def)
  show ?thesis
    using transform_failure_returns_composite
      [of failingTranspiler pingWrapper twoHandlers "Error ''Transform failed''", OF h]
    by (simp add: pingWrapper_def twoHandlers_def getImportRegistry_def registryKey_def
        initial_state_def importLine_def fnToString_def fileA_def jsText_def newline_def)
qed

text \<open>
  Claim C6, at the handler name \<open>fn\<close>. Line 187 stores the function in \<open>this.fn\<close>; line 191
  then assigns the invocation string to \<open>this["fn"]\<close>, the same property. When the
  transpiler fails, what \<open>buildCode\<close> returns ends in \<open>this.fn.toString()\<close>, which is now
  the invocation string and not the source text of the function that was registered.
\<close>

theorem handler_named_fn:
  "fst (ClientFunctionImpl (coldEnv None) ''fn'' (JFunction pingFn) None initial_state)
     = Inr fnWrapper
   \<and> failingTranspiler
        (functionCode fnWrapper (fst (getImportRegistry (sourceFileUrl fnWrapper) afterFn)))
        buildCodeOptions = Inl (Error ''Transform failed'')
   \<and> fst (buildCode failingTranspiler fnWrapper afterFn)
       = jsText (newline @ ''export default handlers.fn_5d48cb26(this, event)'')
   \<and> source pingFn = jsText ''function(){return 1}''
   \<and> fst (buildCode failingTranspiler fnWrapper afterFn)
       \<noteq> jsText (newline @ ''export default '') @ source pingFn"
proof -
  have made: "ClientFunctionImpl (coldEnv None) ''fn'' (JFunction pingFn) None initial_state
      = (Inr fnWrapper,
         \<lparr>cacheLoaded = True, cacheDirty = False, cacheFlushScheduled = False, cache = [],
          sourceFileMtimeMemo = [], handlers = [(ident pingFn, fnWrapper)],
          importsBySourceFileUrl = [(''__global__'', [(''fn'', ''fn_5d48cb26'')])],
          microtasks = 0, statCalls = [], hashingLog = [''fn'']\<rparr>)"
    by (simp add: run_defs hashedFilename_pingFn fnWrapper_def)
  have built: "fst (buildCode failingTranspiler fnWrapper afterFn)
      = jsText (newline @ ''export default handlers.fn_5d48cb26(this, event)'')"
    by (simp add: afterFn_def made buildCode_def failingTranspiler_def functionCode_def
        fnWrapper_def getImportRegistry_def registryKey_def fnToString_def Let_def jsText_def
        newline_def)
  have differs: "jsText (newline @ ''export default handlers.fn_5d48cb26(this, event)'')
      \<noteq> jsText (newline @ ''export default '') @ source pingFn"
    by (simp add: pingFn_def jsText_def newline_def)
  show ?thesis
    using differs by (simp add: made built failingTranspiler_def) (simp add: pingFn_def)
qed

text \<open>
  Claim C2, where the code departs from it. \<open>buildScriptFiles\<close> calls
  \<open>handler.buildCode(minify)\<close>, but \<open>buildCode\<close> has no parameter and passes no \<open>minify\<close>
  option: the handler task gives the same result for both values of the flag, while the
  transforms of the bootstrap module and of the client files do pass it. With a transpiler
  that marks what it was asked for, a build with \<open>minify = true\<close> writes the handler module
  unminified.
\<close>

theorem minify_flag_dropped:
  \<open>buildHandlerFile transform True handler ds = buildHandlerFile transform False handler ds
   \<and> minify buildCodeOptions = None
   \<and> minify (bootstrapOptions True) = Some True
   \<and> minify (clientFileOptions ''ts'' True) = Some True
   \<and> buildHandlerFile markingTranspiler True pingWrapper ([], twoHandlers)
       = (Inr ''ping_5d48cb26'',
          [(''ping_5d48cb26.js'',
            RegularFile (jsText (''/*plain*/import { default as pong } from "./pong_5d48cb07.js";''
                           @ newline @ ''export default function(){return 1}'')))],
          twoHandlers)\<close>
  by (simp add: buildHandlerFile_def callBuildCode_def buildCodeOptions_def bootstrapOptions_def
      clientFileOptions_def buildCode_def markingTranspiler_def functionCode_def
      fileExists_def writeTextFile_def Let_def case_prod_beta importLine_def fnToString_def
      pingWrapper_def pingFn_def twoHandlers_def getImportRegistry_def registryKey_def
      initial_state_def fileA_def jsText_def newline_def)

section \<open>Cleaning the output directory\<close>

text \<open>
  Claim C8 as stated fails: the loop only looks at regular files whose name ends in
  \<open>.js\<close>. A file \<open>notes.txt\<close> and a directory \<open>old\<close> stay although their base names are
  not among the produced ones.
\<close>

theorem cleanup_keeps_other_files:
  "cleanupStep True removeAlways [''a'']
      [(''a.js'', textFile), (''b.js'', textFile), (''notes.txt'', textFile), (''old'', Directory)]
     = (None, [(''a.js'', textFile), (''notes.txt'', textFile), (''old'', Directory)])
   \<and> baseName ''notes.txt'' \<notin> set [''a'']
   \<and> baseName ''old'' \<notin> set [''a'']"
  by (simp add: cleanupStep_def removeAlways_def textFile_def isFile_def endsWith_def
      baseName_def)

lemma cleanupLoop_filter:
  "fst (cleanupLoop removeOk files entries dir) = None \<Longrightarrow>
     snd (cleanupLoop removeOk files entries dir)
       = filter (\<lambda>p. fst p \<notin> fst ` {x \<in> set entries. stale files x}) dir"
proof (induction entries arbitrary: dir)
  case Nil
  then show ?case by simp
next
  case (Cons item entries)
  obtain name entry where item: "item = (name, entry)" by (cases item)
  show ?case
  proof (cases "stale files (name, entry)")
    case False
    then have "cleanupLoop removeOk files (item # entries) dir = cleanupLoop removeOk files entries dir"
      by (auto simp add: item stale_def)
    moreover have "{x \<in> set (item # entries). stale files x} = {x \<in> set entries. stale files x}"
      using False by (auto simp add: item)
    ultimately show ?thesis
      using Cons by simp
  next
    case True
    then have ok: "removeOk name"
      using Cons.prems by (auto simp add: item stale_def split: if_splits)
    have step: "cleanupLoop removeOk files (item # entries) dir
        = cleanupLoop removeOk files entries (AList.delete name dir)"
      using True ok by (auto simp add: item stale_def)
    have "snd (cleanupLoop removeOk files entries (AList.delete name dir))
        = filter (\<lambda>p. fst p \<notin> fst ` {x \<in> set entries. stale files x}) (AList.delete name dir)"
      using Cons.prems Cons.IH [of "AList.delete name dir"] by (simp add: step)
    also have "\<dots> = filter (\<lambda>p. fst p \<notin> fst ` {x \<in> set (item # entries). stale files x}) dir"
    proof -
      have mem: "k \<in> fst ` {x \<in> set (item # entries). stale files x}
          \<longleftrightarrow> k = name \<or> k \<in> fst ` {x \<in> set entries. stale files x}" for k
        using True by (force simp add: item)
      have "filter (\<lambda>p. fst p \<notin> fst ` {x \<in> set entries. stale files x})
              (filter (\<lambda>(k, v). name \<noteq> k) dir)
          = filter (\<lambda>p. fst p \<notin> fst ` {x \<in> set (item # entries). stale files x}) dir"
        unfolding filter_filter
        by (rule filter_cong [OF refl]) (auto simp only: mem case_prod_beta)
      then show ?thesis
        by (simp only: AList.delete_eq)
    qed
    finally show ?thesis
      by (simp add: step)
  qed
qed

text \<open>
  Claim C8, amended. After a cleanup that ends without a failed removal, the output
  directory holds exactly its former entries except the regular files whose name ends in
  \<open>.js\<close> and whose base name (the part before the first dot) is not among the produced
  names: those are deleted, every other entry is kept. In particular \<open>{a.js, b.js, c.js}\<close>
  with the produced names \<open>{a, c}\<close> becomes \<open>{a.js, c.js}\<close>.
\<close>

theorem cleanup_prunes_js_files:
  assumes "distinct (map fst dir)"
    and "fst (cleanupStep True removeOk files dir) = None"
  shows "snd (cleanupStep True removeOk files dir)
     = filter (\<lambda>(name, entry).
          \<not> (isFile entry \<and> endsWith name ''.js'' \<and> baseName name \<notin> set files)) dir"
proof -
  have "snd (cleanupStep True removeOk files dir)
      = filter (\<lambda>item. fst item \<notin> fst ` {x \<in> set dir. stale files x}) dir"
    using assms(2) by (simp add: cleanupStep_def cleanupLoop_filter)
  also have "\<dots> = filter (\<lambda>item. \<not> stale files item) dir"
  proof (rule filter_cong [OF refl])
    fix item
    assume "item \<in> set dir"
    show "(fst item \<notin> fst ` {x \<in> set dir. stale files x}) = (\<not> stale files item)"
    proof (cases item)
      case (Pair name entry)
      have "stale files (name, entry)" if "(name, other) \<in> set dir" "stale files (name, other)" for other
        using eq_key_imp_eq_value [OF assms(1) that(1)] \<open>item \<in> set dir\<close> that(2) Pair by simp
      then show ?thesis
        using \<open>item \<in> set dir\<close> Pair by (auto simp add: image_iff)
    qed
  qed
  also have "(\<lambda>item. \<not> stale files item)
      = (\<lambda>(name, entry). \<not> (isFile entry \<and> endsWith name ''.js'' \<and> baseName name \<notin> set files))"
    by (simp add: stale_def fun_eq_iff)
  finally show ?thesis .
qed

theorem cleanup_prunes_js_files_witness:
  "distinct (map fst [(''a.js'', textFile), (''b.js'', textFile), (''c.js'', textFile)])
   \<and> fst (cleanupStep True removeAlways [''a'', ''c'']
            [(''a.js'', textFile), (''b.js'', textFile), (''c.js'', textFile)]) = None
   \<and> snd (cleanupStep True removeAlways [''a'', ''c'']
            [(''a.js'', textFile), (''b.js'', textFile), (''c.js'', textFile)])
       = [(''a.js'', textFile), (''c.js'', textFile)]"
proof -
  have d: "distinct (map fst [(''a.js'', textFile), (''b.js'', textFile), (''c.js'', textFile)])"
    by simp
  have ok: "fst (cleanupStep True removeAlways [''a'', ''c'']
            [(''a.js'', textFile), (''b.js'', textFile), (''c.js'', textFile)]) = None"
    by (simp add: cleanupStep_def removeAlways_def textFile_def isFile_def endsWith_def
      baseName_def)
  show ?thesis
    using d ok cleanup_prunes_js_files [OF d ok]
    by (simp add: textFile_def isFile_def endsWith_def baseName_def)
qed

section \<open>The dispatch proxy\<close>

lemma afterFirstAccess_eq:
  "afterFirstAccess = \<lparr>basePath = ''.'', proxyTarget = [],
     importCalls = [\<lparr>specifier = ''./save.js'', handlerName = ''save'', status = Pending\<rparr>],
     moduleMap = [(''./save.js'', Pending)], loadsStarted = [''./save.js'']\<rparr>"
  by (simp add: afterFirstAccess_def getTrap_def propInTarget_def startImport_def
      createHandlerProxy_def objectPrototypeNames_def Let_def)

lemma afterSecondAccess_eq:
  "afterSecondAccess = \<lparr>basePath = ''.'', proxyTarget = [],
     importCalls = [\<lparr>specifier = ''./save.js'', handlerName = ''save'', status = Pending\<rparr>,
                    \<lparr>specifier = ''./save.js'', handlerName = ''save'', status = Pending\<rparr>],
     moduleMap = [(''./save.js'', Pending)], loadsStarted = [''./save.js'']\<rparr>"
  by (simp add: afterSecondAccess_def afterFirstAccess_eq getTrap_def propInTarget_def
      startImport_def objectPrototypeNames_def Let_def)

lemma afterSaveLoaded_eq:
  "afterSaveLoaded = \<lparr>basePath = ''.'', proxyTarget = [(''save'', 7)],
     importCalls = [\<lparr>specifier = ''./save.js'', handlerName = ''save'', status = Fulfilled 7\<rparr>,
                    \<lparr>specifier = ''./save.js'', handlerName = ''save'', status = Fulfilled 7\<rparr>],
     moduleMap = [(''./save.js'', Fulfilled 7)], loadsStarted = [''./save.js'']\<rparr>"
  by (simp add: afterSaveLoaded_def afterSecondAccess_eq finishLoad_def settleImport_def Let_def)

text \<open>
  Two accesses of \<open>handlers.save\<close> before anything has loaded call \<open>import("./save.js")\<close>
  twice, and the host starts one load. Both closures wait while it is in flight, both call
  the function it yields, and a later access calls the function stored in the target.
\<close>

lemma two_accesses_one_load:
  "fst (getTrap (StringKey ''save'') (createHandlerProxy ''.'')) = Some (AwaitImport 0)"
  "fst (getTrap (StringKey ''save'') afterFirstAccess) = Some (AwaitImport 1)"
  "loadsStarted afterSecondAccess = [''./save.js'']"
  "invoke (AwaitImport 0) [JObject, JString ''click''] afterSecondAccess = Awaits 0"
  "invoke (AwaitImport 1) [JObject, JString ''click''] afterSecondAccess = Awaits 1"
  "invoke (AwaitImport 0) [JObject, JString ''click''] afterSaveLoaded
     = Calls 7 JObject [JString ''click'']"
  "invoke (AwaitImport 1) [JObject, JString ''click''] afterSaveLoaded
     = Calls 7 JObject [JString ''click'']"
  "getTrap (StringKey ''save'') afterSaveLoaded = (Some (CallTarget ''save''), afterSaveLoaded)"
  "invoke (CallTarget ''save'') [JObject, JString ''click''] afterSaveLoaded
     = Calls 7 JObject [JString ''click'']"
  by (simp_all add: afterSecondAccess_eq afterFirstAccess_eq afterSaveLoaded_eq getTrap_def
      propInTarget_def startImport_def createHandlerProxy_def objectPrototypeNames_def
      invoke_def thisValue_def restArgs_def Let_def)

text \<open>The invariant holds of a fresh proxy and is kept by every step.\<close>

lemma proxyInvariant_created: "proxyInvariant (createHandlerProxy path)"
  by (simp add: proxyInvariant_def createHandlerProxy_def)

lemma proxyInvariant_access:
  assumes "proxyInvariant ps1"
  shows "proxyInvariant (snd (getTrap key ps1))"
proof (cases key)
  case SymbolKey
  then show ?thesis
    using assms by (simp add: getTrap_def)
next
  case (StringKey name)
  show ?thesis
  proof (cases "propInTarget ps1 name")
    case True
    then show ?thesis
      using assms StringKey by (simp add: getTrap_def)
  next
    case False
    define spec where "spec = basePath ps1 @ ''/'' @ name @ ''.js''"
    have step: "snd (getTrap key ps1) = startImport spec name ps1"
      using False StringKey by (simp add: getTrap_def spec_def)
    show ?thesis
    proof (cases "map_of (moduleMap ps1) spec")
      case (Some known)
      then show ?thesis
        using assms by (simp add: step startImport_def Let_def proxyInvariant_def)
    next
      case None
      have "map_of (moduleMap ps1) spec \<noteq> None \<longleftrightarrow> spec \<in> set (loadsStarted ps1)"
        using assms unfolding proxyInvariant_def by blast
      then have fresh: "spec \<notin> set (loadsStarted ps1)"
        using None by simp
      have old: "status c = Pending" if "c \<in> set (importCalls ps1)" "specifier c = spec" for c
        using assms that None by (force simp add: proxyInvariant_def)
      show ?thesis
        using assms None fresh old
        by (auto simp add: step startImport_def Let_def update_conv' proxyInvariant_def)
    qed
  qed
qed

lemma proxyInvariant_loaded:
  assumes "proxyInvariant ps1"
  shows "proxyInvariant (finishLoad spec outcome ps1)"
proof (cases "map_of (moduleMap ps1) spec = Some Pending")
  case False
  then show ?thesis
    using assms by (simp add: finishLoad_def)
next
  case True
  have old: "status c = Pending" if "c \<in> set (importCalls ps1)" "specifier c = spec" for c
    using assms that True by (force simp add: proxyInvariant_def)
  have known: "spec \<in> set (loadsStarted ps1)"
    using assms True by (force simp add: proxyInvariant_def)
  show ?thesis
    using assms True old known
    by (auto simp add: finishLoad_def update_conv' proxyInvariant_def)
qed

lemma proxyInvariant_update_call:
  assumes "proxyInvariant ps1"
    and "map_of (moduleMap ps1) (specifier (importCalls ps1 ! i)) = Some outcome"
    and "loadsStarted ps2 = loadsStarted ps1"
    and "moduleMap ps2 = moduleMap ps1"
    and "importCalls ps2 = (importCalls ps1)[i := (importCalls ps1 ! i)\<lparr>status := outcome\<rparr>]"
  shows "proxyInvariant ps2"
proof -
  have calls: "status c = Pending \<or> map_of (moduleMap ps1) (specifier c) = Some (status c)"
    if "c \<in> set (importCalls ps1)" for c
    using assms(1) that unfolding proxyInvariant_def by blast
  have "status c = Pending \<or> map_of (moduleMap ps2) (specifier c) = Some (status c)"
    if "c \<in> set (importCalls ps2)" for c
  proof -
    have "c \<in> insert ((importCalls ps1 ! i)\<lparr>status := outcome\<rparr>) (set (importCalls ps1))"
      using that set_update_subset_insert [of "importCalls ps1" i] assms(5) by auto
    then show ?thesis
      using calls assms(2,4) by auto
  qed
  then show ?thesis
    using assms(1,3,4) by (simp add: proxyInvariant_def)
qed

lemma proxyInvariant_settled:
  assumes "proxyInvariant ps1"
  shows "proxyInvariant (settleImport i ps1)"
proof (cases "i < length (importCalls ps1) \<and> status (importCalls ps1 ! i) = Pending")
  case False
  then have "settleImport i ps1 = ps1"
    by (auto simp add: settleImport_def)
  then show ?thesis
    using assms by simp
next
  case True
  show ?thesis
  proof (cases "map_of (moduleMap ps1) (specifier (importCalls ps1 ! i))")
    case None
    then show ?thesis
      using assms True by (simp add: settleImport_def Let_def)
  next
    case (Some outcome)
    show ?thesis
    proof (cases outcome)
      case Pending
      then show ?thesis
        using assms True Some by (simp add: settleImport_def Let_def)
    next
      case (Fulfilled f)
      show ?thesis
        by (rule proxyInvariant_update_call [OF assms Some])
          (simp_all add: settleImport_def Let_def True Some Fulfilled)
    next
      case Rejected
      show ?thesis
        by (rule proxyInvariant_update_call [OF assms Some])
          (simp_all add: settleImport_def Let_def True Some Rejected)
    qed
  qed
qed

lemma proxy_invariant: "proxyReaches ps0 ps \<Longrightarrow> proxyInvariant ps0 \<Longrightarrow> proxyInvariant ps"
  by (induction rule: proxyReaches.induct)
    (simp_all add: proxyInvariant_access proxyInvariant_loaded proxyInvariant_settled)

text \<open>
  So the calls of \<open>import(...)\<close> for one specifier share one load, and those of them that
  have settled have settled alike: all fulfilled with the same function, or all rejected.
\<close>

lemma proxy_sameLoad:
  assumes "proxyReaches (createHandlerProxy path) ps"
  shows "distinct (loadsStarted ps) \<and> sameLoad ps"
proof -
  have all: "proxyInvariant ps"
    using proxy_invariant [OF assms proxyInvariant_created] .
  then have inv: "\<forall>c \<in> set (importCalls ps).
      status c = Pending \<or> map_of (moduleMap ps) (specifier c) = Some (status c)"
    by (simp add: proxyInvariant_def)
  have "status (importCalls ps ! i) = status (importCalls ps ! j)"
    if "i < length (importCalls ps)" "j < length (importCalls ps)"
      "specifier (importCalls ps ! i) = specifier (importCalls ps ! j)"
      "status (importCalls ps ! i) \<noteq> Pending" "status (importCalls ps ! j) \<noteq> Pending" for i j
  proof -
    have "map_of (moduleMap ps) (specifier (importCalls ps ! i)) = Some (status (importCalls ps ! i))"
      using inv that(1,4) nth_mem by blast
    moreover have "map_of (moduleMap ps) (specifier (importCalls ps ! j))
        = Some (status (importCalls ps ! j))"
      using inv that(2,5) nth_mem by blast
    ultimately show ?thesis
      using that(3) by simp
  qed
  then show ?thesis
    using all by (simp add: sameLoad_def proxyInvariant_def)
qed

text \<open>
  Claim C1, at the handler name \<open>toString\<close>. The target of the proxy is a plain object, so
  \<open>"toString" in target\<close> holds from the start: the trap takes the branch of line 33 for a
  name it has never loaded. However often \<open>handlers.toString\<close> is accessed, the state stays
  as it is: \<open>import(...)\<close> is never called and no load is started, where the claim has
  exactly one. An invocation calls \<open>Object.prototype.toString\<close> with the first argument as
  receiver, and no handler module.
\<close>

theorem inherited_name_never_loaded:
  "getTrap (StringKey ''toString'') (createHandlerProxy ''.'')
     = (Some (CallTarget ''toString''), createHandlerProxy ''.'')
   \<and> importCalls (snd (getTrap (StringKey ''toString'')
         (snd (getTrap (StringKey ''toString'') (createHandlerProxy ''.''))))) = []
   \<and> loadsStarted (snd (getTrap (StringKey ''toString'')
         (snd (getTrap (StringKey ''toString'') (createHandlerProxy ''.''))))) = []
   \<and> invoke (CallTarget ''toString'') [JObject, JString ''click''] (createHandlerProxy ''.'')
       = CallsMember ''toString'' JObject [JString ''click'']"
  by (simp add: getTrap_def propInTarget_def createHandlerProxy_def objectPrototypeNames_def
      invoke_def thisValue_def restArgs_def)

end
